theory Spec2Isabelle
  imports Main
begin

section \<open>Host primitives: values and the surroundings of the module\<close>

text \<open>
  Strings are lists of 8-bit characters, read as the code units 0 to 255.

  \<open>Unmodelled\<close> marks an input on which the host does something this development does
  not describe: a number in JSON that is not an integer of magnitude at most \<open>2^53\<close>, a
  \<open>\\u\<close> escape above 255, the prototype object used as a holder of properties, a
  dispatch that re-enters the handler.
\<close>

datatype error = SyntaxError | TypeError | ReferenceError | Unmodelled

text \<open>
  The values that cross the module's interface. \<open>Window n\<close> is a window handle,
  \<open>IFrame n\<close> the frame element whose \<open>contentWindow\<close> is \<open>Window n\<close>, \<open>Function n\<close> a
  caller's function, opaque here: calling it is recorded and has no other effect.
  \<open>OnceCallback cb k\<close> is the arrow function that \<open>receiveMessageOnce\<close> creates: it
  closes over the parameter \<open>callback\<close> and over \<open>listener\<close>, the handle of registration
  \<open>k\<close>.
\<close>

datatype jsval =
    Undefined
  | Null
  | Str string
  | Window nat
  | IFrame nat
  | Function nat
  | OnceCallback jsval nat

fun truthy :: "jsval \<Rightarrow> bool" where
  "truthy Undefined = False"
| "truthy Null = False"
| "truthy (Str s) = (s \<noteq> [])"
| "truthy _ = True"

fun contentWindow :: "jsval \<Rightarrow> jsval" where
  "contentWindow (IFrame n) = Window n"
| "contentWindow _ = Undefined"

text \<open>
  What the module's surroundings fix: the document's own origin; what \<open>this\<close> and
  \<open>arguments\<close> denote at the top level of the module, where the arrow functions take
  them from (a module has no \<open>arguments\<close> binding, \<open>None\<close>; wrapped as a CommonJS
  function it has the wrapper's); and the regular-expression engine on the patterns that
  the parser below does not read: whether the constructor accepts the pattern text, and
  whether the pattern, with the given ignore-case flag, matches somewhere in a text.
\<close>

record host =
  location_origin :: string
  module_this :: jsval
  module_arguments :: "jsval list option"
  regexp_compiles :: "string \<Rightarrow> bool"
  regexp_test :: "string \<Rightarrow> bool \<Rightarrow> string \<Rightarrow> bool"

section \<open>Host primitives: regular expressions\<close>

text \<open>
  The module builds its two matchers by pasting caller strings into a pattern text and
  handing the text to the host's \<open>RegExp\<close> constructor. The pattern text is therefore
  modelled as text and parsed, so that what a pasted string does to the pattern (an
  unescaped dot, a bar at top level, an unbalanced parenthesis) is what it does in the
  program. The parser reads literal characters, the dot, the two anchors, groups,
  alternatives, the quantifiers \<open>*\<close>, \<open>+\<close>, \<open>?\<close> and their lazy forms, and a backslash
  before a character that is neither a letter nor a digit. It answers \<open>SyntaxError\<close>
  where the constructor throws whatever follows, and \<open>Unmodelled\<close> at the first
  construct outside this fragment (a bracket or a brace, a letter or digit escape, a
  group that opens with a question mark and no colon); the pattern is then the host's.
\<close>

datatype regex =
    Emp
  | Chr char
  | AnyChr
  | Bol
  | Eol
  | Cat regex regex
  | Alt regex regex
  | Star regex

text \<open>How a term of the sequence being read may still be quantified.\<close>

datatype term_kind = Atom | Assertion | Quantified | LazyQuantified

datatype parse_mode = Normal | AfterOpen | AfterOpenQ | Escaped

text \<open>
  One frame per open group: the alternatives already closed by a bar, and the terms of the
  alternative being read, both latest first.
\<close>

type_synonym frame = "regex list \<times> (regex \<times> term_kind) list"

definition seq_of :: "(regex \<times> term_kind) list \<Rightarrow> regex" where
  "seq_of ts = foldr Cat (rev (map fst ts)) Emp"

fun alt_of :: "regex list \<Rightarrow> regex" where
  "alt_of [] = Emp"
| "alt_of [r] = r"
| "alt_of (r # rs) = Alt r (alt_of rs)"

definition close_frame :: "frame \<Rightarrow> regex" where
  "close_frame f = alt_of (rev (seq_of (snd f) # fst f))"

definition is_alnum :: "char \<Rightarrow> bool" where
  "is_alnum c = (let n = of_char c :: nat in
     (48 \<le> n \<and> n \<le> 57) \<or> (65 \<le> n \<and> n \<le> 90) \<or> (97 \<le> n \<and> n \<le> 122))"

definition add_term :: "regex \<times> term_kind \<Rightarrow> frame list \<Rightarrow> frame list" where
  "add_term t st = (case st of [] \<Rightarrow> [] | (alts, cur) # rest \<Rightarrow> (alts, t # cur) # rest)"

text \<open>
  A quantifier applies to the last term; with nothing before it, after an assertion or
  after another quantifier there is nothing to repeat. A question mark after a
  quantifier makes it lazy, which changes which match is found and not whether one
  exists.
\<close>

definition quantify :: "char \<Rightarrow> frame list \<Rightarrow> error + frame list" where
  "quantify q st = (case st of
      [] \<Rightarrow> Inl SyntaxError
    | (alts, []) # rest \<Rightarrow> Inl SyntaxError
    | (alts, (r, k) # cur) # rest \<Rightarrow>
        (case k of
           Atom \<Rightarrow>
             Inr ((alts,
                   ((if q = CHR ''*'' then Star r
                     else if q = CHR ''+'' then Cat r (Star r)
                     else Alt r Emp), Quantified) # cur) # rest)
         | Assertion \<Rightarrow> Inl SyntaxError
         | Quantified \<Rightarrow>
             (if q = CHR ''?'' then Inr ((alts, (r, LazyQuantified) # cur) # rest)
              else Inl SyntaxError)
         | LazyQuantified \<Rightarrow> Inl SyntaxError))"

definition normal_char :: "char \<Rightarrow> frame list \<Rightarrow> error + parse_mode \<times> frame list" where
  "normal_char c st =
     (if c = CHR ''('' then Inr (AfterOpen, ([], []) # st)
      else if c = CHR '')'' then
        (case st of
           f # (alts, cur) # rest \<Rightarrow> Inr (Normal, (alts, (close_frame f, Atom) # cur) # rest)
         | _ \<Rightarrow> Inl SyntaxError)
      else if c = CHR ''|'' then
        (case st of
           [] \<Rightarrow> Inl SyntaxError
         | (alts, cur) # rest \<Rightarrow> Inr (Normal, (seq_of cur # alts, []) # rest))
      else if c = CHR ''*'' \<or> c = CHR ''+'' \<or> c = CHR ''?'' then
        (case quantify c st of Inl e \<Rightarrow> Inl e | Inr st' \<Rightarrow> Inr (Normal, st'))
      else if c = CHR 0x5C then Inr (Escaped, st)
      else if c = CHR ''['' \<or> c = CHR '']'' \<or> c = CHR ''{'' \<or> c = CHR ''}'' then Inl Unmodelled
      else if c = CHR ''^'' then Inr (Normal, add_term (Bol, Assertion) st)
      else if c = CHR ''$'' then Inr (Normal, add_term (Eol, Assertion) st)
      else if c = CHR ''.'' then Inr (Normal, add_term (AnyChr, Atom) st)
      else Inr (Normal, add_term (Chr c, Atom) st))"

text \<open>
  One character of the pattern. After a backslash a character that is neither a letter
  nor a digit stands for itself; the letter and digit escapes (classes, back references,
  control characters) are outside the fragment. After an opening parenthesis \<open>?:\<close>
  makes the group non-capturing, which \<open>test\<close> cannot observe; the other groups that
  open with a question mark are outside the fragment.
\<close>

definition parse_step :: "parse_mode \<Rightarrow> frame list \<Rightarrow> char \<Rightarrow> error + parse_mode \<times> frame list" where
  "parse_step m st c = (case m of
      Escaped \<Rightarrow>
        (if is_alnum c then Inl Unmodelled else Inr (Normal, add_term (Chr c, Atom) st))
    | AfterOpen \<Rightarrow> (if c = CHR ''?'' then Inr (AfterOpenQ, st) else normal_char c st)
    | AfterOpenQ \<Rightarrow> (if c = CHR '':'' then Inr (Normal, st) else Inl Unmodelled)
    | Normal \<Rightarrow> normal_char c st)"

fun parse_loop :: "parse_mode \<Rightarrow> frame list \<Rightarrow> string \<Rightarrow> error + regex" where
  "parse_loop m st [] =
     (if m = Escaped \<or> m = AfterOpenQ then Inl SyntaxError
      else (case st of [f] \<Rightarrow> Inr (close_frame f) | _ \<Rightarrow> Inl SyntaxError))"
| "parse_loop m st (c # cs) =
     (case parse_step m st c of Inl e \<Rightarrow> Inl e | Inr (m', st') \<Rightarrow> parse_loop m' st' cs)"

definition parse_regex :: "string \<Rightarrow> error + regex" where
  "parse_regex p = parse_loop Normal [([], [])] p"

text \<open>
  A pattern that the parser has read, with its ignore-case flag; and a \<open>RegExp\<close> object:
  such a pattern, or the text and flag of one that the host's engine compiled.
\<close>

type_synonym pattern = "bool \<times> regex"

datatype RegExp = Compiled pattern | Foreign string bool

definition new_RegExp :: "host \<Rightarrow> string \<Rightarrow> bool \<Rightarrow> error + RegExp" where
  "new_RegExp h p ic =
     (case parse_regex p of
        Inr r \<Rightarrow> Inr (Compiled (ic, r))
      | Inl SyntaxError \<Rightarrow> Inl SyntaxError
      | Inl _ \<Rightarrow> if regexp_compiles h p then Inr (Foreign p ic) else Inl SyntaxError)"

definition line_terminator :: "char \<Rightarrow> bool" where
  "line_terminator c = (c = CHR 0x0A \<or> c = CHR 0x0D)"

text \<open>
  The ignore-case flag compares the upper-case forms of two characters. Among the code
  units 0 to 255 these are the capitals of \<open>a\<close> to \<open>z\<close> and of the letters 0xE0 to 0xFE
  (0xF7, the division sign, is no letter). The upper-case forms of 0xB5 and 0xFF lie
  above 255 and are those of no other code unit below 256, and that of 0xDF is two
  characters long, so that each of the three equals only itself.
\<close>

definition upcase :: "char \<Rightarrow> char" where
  "upcase c = (let n = of_char c :: nat in
     if (97 \<le> n \<and> n \<le> 122) \<or> (224 \<le> n \<and> n \<le> 254 \<and> n \<noteq> 247) then char_of (n - 32)
     else c)"

definition char_eq :: "bool \<Rightarrow> char \<Rightarrow> char \<Rightarrow> bool" where
  "char_eq ic a b = (if ic then upcase a = upcase b else a = b)"

text \<open>
  The matcher computes, for a start position, the positions where a match of the pattern
  can end. \<open>star_ends f n i\<close> are the positions reached from \<open>i\<close> by at most \<open>n\<close> steps
  of \<open>f\<close> that each consume something: an iteration that consumes nothing adds no
  position, and no more than \<open>length s - i\<close> iterations can consume.
\<close>

primrec star_ends :: "(nat \<Rightarrow> nat list) \<Rightarrow> nat \<Rightarrow> nat \<Rightarrow> nat list" where
  "star_ends f 0 i = [i]"
| "star_ends f (Suc n) i = i # concat (map (star_ends f n) (filter (\<lambda>k. i < k) (f i)))"

primrec rx_ends :: "bool \<Rightarrow> string \<Rightarrow> regex \<Rightarrow> nat \<Rightarrow> nat list" where
  "rx_ends ic s Emp = (\<lambda>i. [i])"
| "rx_ends ic s (Chr c) = (\<lambda>i. if i < length s \<and> char_eq ic (s ! i) c then [Suc i] else [])"
| "rx_ends ic s AnyChr = (\<lambda>i. if i < length s \<and> \<not> line_terminator (s ! i) then [Suc i] else [])"
| "rx_ends ic s Bol = (\<lambda>i. if i = 0 then [i] else [])"
| "rx_ends ic s Eol = (\<lambda>i. if i = length s then [i] else [])"
| "rx_ends ic s (Cat a b) = (\<lambda>i. remdups (concat (map (rx_ends ic s b) (rx_ends ic s a i))))"
| "rx_ends ic s (Alt a b) = (\<lambda>i. remdups (rx_ends ic s a i @ rx_ends ic s b i))"
| "rx_ends ic s (Star a) = (\<lambda>i. remdups (star_ends (rx_ends ic s a) (length s - i) i))"

text \<open>\<open>rx_match ic s r i j\<close>: the pattern \<open>r\<close> matches \<open>s\<close> from position \<open>i\<close> up to \<open>j\<close>.\<close>

definition rx_match :: "bool \<Rightarrow> string \<Rightarrow> regex \<Rightarrow> nat \<Rightarrow> nat \<Rightarrow> bool" where
  "rx_match ic s r i j = (j \<in> set (rx_ends ic s r i))"

text \<open>\<open>RegExp.prototype.test\<close> without the global flag: a match anywhere in the text.\<close>

definition regex_test :: "pattern \<Rightarrow> string \<Rightarrow> bool" where
  "regex_test re s =
     list_ex (\<lambda>i. rx_ends (fst re) s (snd re) i \<noteq> []) [0..<Suc (length s)]"

definition RegExp_test :: "host \<Rightarrow> RegExp \<Rightarrow> string \<Rightarrow> bool" where
  "RegExp_test h re s =
     (case re of Compiled p \<Rightarrow> regex_test p s | Foreign p ic \<Rightarrow> regexp_test h p ic s)"

text \<open>\<open>Array.prototype.join\<close>, \<open>indexOf\<close> and \<open>splice(index, 1)\<close> on lists of strings.\<close>

fun join :: "string \<Rightarrow> string list \<Rightarrow> string" where
  "join sep [] = []"
| "join sep [x] = x"
| "join sep (x # xs) = x @ sep @ join sep xs"

fun indexOf :: "'a list \<Rightarrow> 'a \<Rightarrow> nat option" where
  "indexOf [] x = None"
| "indexOf (y # ys) x = (if y = x then Some 0 else map_option Suc (indexOf ys x))"

definition splice1 :: "'a list \<Rightarrow> nat \<Rightarrow> 'a list" where
  "splice1 xs i = take i xs @ drop (Suc i) xs"

section \<open>Host primitives: JSON\<close>

text \<open>
  JSON values. A number is an integer of magnitude at most \<open>2^53\<close>, which the host holds
  exactly and prints in decimal. An object is an association list in insertion order with
  no key twice.
\<close>

datatype json =
    JNull
  | JBool bool
  | JNum int
  | JStr string
  | JArr "json list"
  | JObj "(string \<times> json) list"

definition bs :: char where "bs = CHR 0x5C"
definition dq :: char where "dq = CHR 0x22"

fun set_prop :: "(string \<times> 'a) list \<Rightarrow> string \<Rightarrow> 'a \<Rightarrow> (string \<times> 'a) list" where
  "set_prop [] k v = [(k, v)]"
| "set_prop ((k', v') # kvs) k v =
     (if k' = k then (k, v) # kvs else (k', v') # set_prop kvs k v)"

definition hex_digit :: "nat \<Rightarrow> char" where
  "hex_digit n = (if n < 10 then char_of (48 + n) else char_of (87 + n))"

definition escape_char :: "char \<Rightarrow> string" where
  "escape_char c = (let n = of_char c :: nat in
     if c = dq then [bs, dq]
     else if c = bs then [bs, bs]
     else if n = 8 then [bs, CHR ''b'']
     else if n = 12 then [bs, CHR ''f'']
     else if n = 10 then [bs, CHR ''n'']
     else if n = 13 then [bs, CHR ''r'']
     else if n = 9 then [bs, CHR ''t'']
     else if n < 32 then [bs, CHR ''u'', CHR ''0'', CHR ''0'', hex_digit (n div 16), hex_digit (n mod 16)]
     else [c])"

definition quote :: "string \<Rightarrow> string" where
  "quote s = [dq] @ concat (map escape_char s) @ [dq]"

fun digits :: "nat \<Rightarrow> string" where
  "digits n = (if n < 10 then [char_of (48 + n)] else digits (n div 10) @ [char_of (48 + n mod 10)])"

definition show_int :: "int \<Rightarrow> string" where
  "show_int i = (if i < 0 then CHR ''-'' # digits (nat (- i)) else digits (nat i))"

text \<open>
  The order in which the properties of an object are enumerated: the keys that spell an
  array index (a decimal number up to \<open>2^32 - 2\<close> with no leading zero) in ascending
  order, then the other keys in insertion order.
\<close>

definition array_index :: "string \<Rightarrow> int option" where
  "array_index k =
     (if k = [] \<or> \<not> list_all (\<lambda>c. 48 \<le> (of_char c :: nat) \<and> (of_char c :: nat) \<le> 57) k
         \<or> (hd k = CHR ''0'' \<and> length k > 1)
      then None
      else (let n = foldl (\<lambda>a c. 10 * a + (of_char c - 48)) (0 :: int) k
            in if n \<le> 4294967294 then Some n else None))"

definition own_property_order :: "(string \<times> 'a) list \<Rightarrow> (string \<times> 'a) list" where
  "own_property_order kvs =
     sort_key (\<lambda>kv. the (array_index (fst kv))) (filter (\<lambda>kv. array_index (fst kv) \<noteq> None) kvs)
     @ filter (\<lambda>kv. array_index (fst kv) = None) kvs"

fun JSON_stringify :: "json \<Rightarrow> string" where
  "JSON_stringify JNull = ''null''"
| "JSON_stringify (JBool b) = (if b then ''true'' else ''false'')"
| "JSON_stringify (JNum i) = show_int i"
| "JSON_stringify (JStr s) = quote s"
| "JSON_stringify (JArr xs) = ''['' @ join '','' (map JSON_stringify xs) @ '']''"
| "JSON_stringify (JObj kvs) =
     ''{'' @ join '',''
              (map (\<lambda>kt. quote (fst kt) @ '':'' @ snd kt)
                 (own_property_order (map (\<lambda>kv. (fst kv, JSON_stringify (snd kv))) kvs)))
         @ ''}''"

definition is_ws :: "char \<Rightarrow> bool" where
  "is_ws c = (c = CHR '' '' \<or> c = CHR 0x09 \<or> c = CHR 0x0A \<or> c = CHR 0x0D)"

definition skip_ws :: "string \<Rightarrow> string" where
  "skip_ws s = dropWhile is_ws s"

definition is_digit :: "char \<Rightarrow> bool" where
  "is_digit c = (let n = of_char c :: nat in 48 \<le> n \<and> n \<le> 57)"

definition hex_val :: "char \<Rightarrow> nat option" where
  "hex_val c = (let n = of_char c :: nat in
     if 48 \<le> n \<and> n \<le> 57 then Some (n - 48)
     else if 65 \<le> n \<and> n \<le> 70 then Some (n - 55)
     else if 97 \<le> n \<and> n \<le> 102 then Some (n - 87)
     else None)"

text \<open>
  The four hex digits of a \<open>\\u\<close> escape; a code unit above 255 has no \<open>char\<close>.
\<close>

definition unicode_escape :: "string \<Rightarrow> error + char" where
  "unicode_escape ds = (case map hex_val ds of
      [Some a, Some b, Some c, Some d] \<Rightarrow>
        (if a = 0 \<and> b = 0 then Inr (char_of (16 * c + d)) else Inl Unmodelled)
    | _ \<Rightarrow> Inl SyntaxError)"

definition simple_escape :: "char \<Rightarrow> char option" where
  "simple_escape e =
     (if e = dq \<or> e = bs \<or> e = CHR ''/'' then Some e
      else if e = CHR ''b'' then Some (CHR 0x08)
      else if e = CHR ''f'' then Some (CHR 0x0C)
      else if e = CHR ''n'' then Some (CHR 0x0A)
      else if e = CHR ''r'' then Some (CHR 0x0D)
      else if e = CHR ''t'' then Some (CHR 0x09)
      else None)"

text \<open>The characters of a string after its opening quote, up to the closing one.\<close>

fun parse_chars :: "string \<Rightarrow> string \<Rightarrow> error + string \<times> string" where
  "parse_chars acc [] = Inl SyntaxError"
| "parse_chars acc [c] = (if c = dq then Inr (rev acc, []) else Inl SyntaxError)"
| "parse_chars acc (c # e # cs) =
     (if c = dq then Inr (rev acc, e # cs)
      else if c = bs then
        (if e = CHR ''u'' then
           (case unicode_escape (take 4 cs) of
              Inl err \<Rightarrow> Inl err
            | Inr u \<Rightarrow> parse_chars (u # acc) (drop 4 cs))
         else (case simple_escape e of
                 None \<Rightarrow> Inl SyntaxError
               | Some x \<Rightarrow> parse_chars (x # acc) cs))
      else if (of_char c :: nat) < 32 then Inl SyntaxError
      else parse_chars (c # acc) (e # cs))"

definition digit_val :: "string \<Rightarrow> int" where
  "digit_val ds = foldl (\<lambda>a c. 10 * a + (of_char c - 48)) 0 ds"

text \<open>
  An integer literal: an optional minus sign, then \<open>0\<close> or digits without a leading
  zero. A fraction, an exponent or a magnitude above \<open>2^53\<close> makes a number that is not
  described here.
\<close>

definition parse_number :: "string \<Rightarrow> error + json \<times> string" where
  "parse_number s =
     (let neg = (s \<noteq> [] \<and> hd s = CHR ''-'');
          t = (if neg then tl s else s);
          ds = takeWhile is_digit t;
          rest = dropWhile is_digit t
      in if ds = [] \<or> (hd ds = CHR ''0'' \<and> length ds > 1) then Inl SyntaxError
         else if rest \<noteq> [] \<and> (hd rest = CHR ''.'' \<or> hd rest = CHR ''e'' \<or> hd rest = CHR ''E'')
           then Inl Unmodelled
         else if digit_val ds > 9007199254740992 then Inl Unmodelled
         else Inr (JNum (if neg then - digit_val ds else digit_val ds), rest))"

definition parse_word :: "string \<Rightarrow> json \<Rightarrow> string \<Rightarrow> error + json \<times> string" where
  "parse_word w v s = (if take (length w) s = w then Inr (v, drop (length w) s) else Inl SyntaxError)"

text \<open>
  Recursive descent; the first argument bounds the nesting and the number of members read,
  and \<open>JSON_parse\<close> starts it above the length of the text, which is more than either.
\<close>

fun parse_value :: "nat \<Rightarrow> string \<Rightarrow> error + json \<times> string"
  and parse_elements :: "nat \<Rightarrow> json list \<Rightarrow> string \<Rightarrow> error + json \<times> string"
  and parse_members :: "nat \<Rightarrow> (string \<times> json) list \<Rightarrow> string \<Rightarrow> error + json \<times> string"
where
  "parse_value 0 s = Inl Unmodelled"
| "parse_value (Suc n) s =
     (case s of
        [] \<Rightarrow> Inl SyntaxError
      | c # cs \<Rightarrow>
          if c = CHR ''{'' then
            (case skip_ws cs of
               [] \<Rightarrow> Inl SyntaxError
             | d # ds \<Rightarrow> if d = CHR ''}'' then Inr (JObj [], ds) else parse_members n [] (d # ds))
          else if c = CHR ''['' then
            (case skip_ws cs of
               [] \<Rightarrow> Inl SyntaxError
             | d # ds \<Rightarrow> if d = CHR '']'' then Inr (JArr [], ds) else parse_elements n [] (d # ds))
          else if c = dq then
            (case parse_chars [] cs of Inl e \<Rightarrow> Inl e | Inr (str, rest) \<Rightarrow> Inr (JStr str, rest))
          else if c = CHR ''t'' then parse_word ''true'' (JBool True) s
          else if c = CHR ''f'' then parse_word ''false'' (JBool False) s
          else if c = CHR ''n'' then parse_word ''null'' JNull s
          else parse_number s)"
| "parse_elements 0 acc s = Inl Unmodelled"
| "parse_elements (Suc n) acc s =
     (case parse_value n s of
        Inl e \<Rightarrow> Inl e
      | Inr (v, rest) \<Rightarrow>
          (case skip_ws rest of
             [] \<Rightarrow> Inl SyntaxError
           | d # ds \<Rightarrow>
               if d = CHR '','' then parse_elements n (acc @ [v]) (skip_ws ds)
               else if d = CHR '']'' then Inr (JArr (acc @ [v]), ds)
               else Inl SyntaxError))"
| "parse_members 0 acc s = Inl Unmodelled"
| "parse_members (Suc n) acc s =
     (case s of
        [] \<Rightarrow> Inl SyntaxError
      | q # cs \<Rightarrow>
          if q \<noteq> dq then Inl SyntaxError
          else (case parse_chars [] cs of
                  Inl e \<Rightarrow> Inl e
                | Inr (k, rest) \<Rightarrow>
                    (case skip_ws rest of
                       [] \<Rightarrow> Inl SyntaxError
                     | col # r1 \<Rightarrow>
                         if col \<noteq> CHR '':'' then Inl SyntaxError
                         else (case parse_value n (skip_ws r1) of
                                 Inl e \<Rightarrow> Inl e
                               | Inr (v, r2) \<Rightarrow>
                                   (case skip_ws r2 of
                                      [] \<Rightarrow> Inl SyntaxError
                                    | d # ds \<Rightarrow>
                                        if d = CHR '','' then
                                          parse_members n (set_prop acc k v) (skip_ws ds)
                                        else if d = CHR ''}'' then Inr (JObj (set_prop acc k v), ds)
                                        else Inl SyntaxError)))))"

definition JSON_parse :: "string \<Rightarrow> error + json" where
  "JSON_parse s =
     (case parse_value (Suc (length s)) (skip_ws s) of
        Inl e \<Rightarrow> Inl e
      | Inr (v, rest) \<Rightarrow> if skip_ws rest = [] then Inr v else Inl SyntaxError)"

section \<open>Host primitives: listeners and the observable trace\<close>

text \<open>
  A listener on the global object: the closure \<open>scoped\<close> of one \<open>receiveMessage\<close> call
  (its identity, and the \<open>source\<close>, \<open>callback\<close> and \<open>context\<close> it closes over), or the
  module's \<open>handleReceiveMessage\<close>.
\<close>

datatype handler =
    Scoped nat jsval jsval jsval
  | HandleReceiveMessage

record state =
  allowedOrigins :: "string list"
  postMessageAllowedOriginRegex :: RegExp
  messageNamespaces :: "string list"
  messageNamespacesRegex :: RegExp
  proxies :: "(string \<times> jsval list) list"
  listening :: bool
  listeners :: "(string \<times> handler) list"
  next_id :: nat
  calls :: "(nat \<times> jsval \<times> jsval list) list"
  sent :: "(nat \<times> string \<times> string) list"
  emitted :: "(string \<times> json option \<times> jsval) list"
  reported :: "error list"

text \<open>
  The first six fields are the module's variables. \<open>listeners\<close> is the global object's
  listener list and \<open>next_id\<close> the identity of the next closure. The last four record
  what the module does to its surroundings: calls of callers' functions (function,
  \<open>this\<close>, arguments), calls of a window's \<open>postMessage\<close> (window, text, target origin),
  events given to \<open>dispatchEvent\<close> (type, detail, source), and exceptions that left a
  listener and were reported by the host.
\<close>

section \<open>The module\<close>

definition ALLOW_WILDCARD :: string where
  "ALLOW_WILDCARD = ''.*''"

definition DEFAULT_MESSAGE_NAMESPACE :: string where
  "DEFAULT_MESSAGE_NAMESPACE = ''.postMessage''"

definition DEFAULT_POSTMESSAGE_OPTIONS :: "(string \<times> json) list" where
  "DEFAULT_POSTMESSAGE_OPTIONS = [(''targetOrigin'', JStr ''*'')]"

definition RE_HAS_NAMESPACE :: pattern where
  "RE_HAS_NAMESPACE = (False, projr (parse_regex ([bs] @ ''..+$'')))"

definition compileNamespaceRegExp :: "host \<Rightarrow> string list \<Rightarrow> error + RegExp" where
  "compileNamespaceRegExp h namespaces =
     new_RegExp h ([bs] @ ''.(?:'' @ join ''|'' namespaces @ '')$'') False"

definition compileOriginRegExp :: "host \<Rightarrow> string list \<Rightarrow> error + RegExp" where
  "compileOriginRegExp h origins =
     new_RegExp h (''^http(s)?:'' @ [bs] @ ''/'' @ [bs] @ ''/'' @ join ''|'' origins @ ''$'') True"

definition init :: "host \<Rightarrow> state" where
  "init h = \<lparr>
     allowedOrigins = [ALLOW_WILDCARD],
     postMessageAllowedOriginRegex = projr (compileOriginRegExp h [ALLOW_WILDCARD]),
     messageNamespaces = [DEFAULT_MESSAGE_NAMESPACE],
     messageNamespacesRegex = projr (compileNamespaceRegExp h [DEFAULT_MESSAGE_NAMESPACE]),
     proxies = [],
     listening = False,
     listeners = [],
     next_id = 0,
     calls = [], sent = [], emitted = [], reported = [] \<rparr>"

text \<open>
  \<open>addEventListener\<close> and \<open>removeEventListener\<close> of the module call the global
  object's; a listener already in the list is not added again.
\<close>

definition addEventListener :: "string \<Rightarrow> handler \<Rightarrow> state \<Rightarrow> state" where
  "addEventListener type h s =
     (if (type, h) \<in> set (listeners s) then s
      else s\<lparr>listeners := listeners s @ [(type, h)]\<rparr>)"

definition removeEventListener :: "string \<Rightarrow> handler \<Rightarrow> state \<Rightarrow> state" where
  "removeEventListener type h s = s\<lparr>listeners := removeAll (type, h) (listeners s)\<rparr>"

definition RE_WILDCARD :: pattern where
  "RE_WILDCARD = (False, projr (parse_regex ([bs] @ ''*'')))"

definition isWildcard :: "string \<Rightarrow> bool" where
  "isWildcard origin = regex_test RE_WILDCARD origin"

text \<open>
  The property \<open>k\<close> of a parsed value: \<open>None\<close> is \<open>undefined\<close>, which is also what a
  value that is not an object has there.
\<close>

definition message_field :: "json \<Rightarrow> string \<Rightarrow> json option" where
  "message_field message k = (case message of JObj kvs \<Rightarrow> map_of kvs k | _ \<Rightarrow> None)"

text \<open>
  \<open>postMessage\<close>: the call of the target's \<open>postMessage\<close> it makes (window, text, target
  origin), or the exception it throws. \<open>data\<close> and \<open>options\<close> are \<open>None\<close> for
  \<open>undefined\<close>. \<open>defaultedOptions\<close> is the caller's object itself, into which the keys
  of \<open>DEFAULT_POSTMESSAGE_OPTIONS\<close> are written one by one; \<open>null\<close> and, in a module's
  strict code, a primitive value take no property. An array takes the properties and
  does not show them in its text. A key whose value is \<open>undefined\<close> is left out of the
  text. The target origin handed over is read back from the object.
\<close>

definition defaultedOptions :: "json option \<Rightarrow> error + json" where
  "defaultedOptions options =
     (case options of
        None \<Rightarrow> Inr (JObj (foldl (\<lambda>obj kv. set_prop obj (fst kv) (snd kv)) [] DEFAULT_POSTMESSAGE_OPTIONS))
      | Some (JObj kvs) \<Rightarrow>
          Inr (JObj (foldl (\<lambda>obj kv. set_prop obj (fst kv) (snd kv)) kvs DEFAULT_POSTMESSAGE_OPTIONS))
      | Some (JArr xs) \<Rightarrow> Inr (JArr xs)
      | Some _ \<Rightarrow> Inl TypeError)"

definition defaultedOptions_targetOrigin :: "json \<Rightarrow> json option" where
  "defaultedOptions_targetOrigin opts =
     (case opts of
        JArr xs \<Rightarrow> map_of DEFAULT_POSTMESSAGE_OPTIONS ''targetOrigin''
      | _ \<Rightarrow> message_field opts ''targetOrigin'')"

definition normalise_type :: "string \<Rightarrow> string" where
  "normalise_type type =
     (if \<not> regex_test RE_HAS_NAMESPACE type then type @ DEFAULT_MESSAGE_NAMESPACE else type)"

definition envelope :: "string \<Rightarrow> json option \<Rightarrow> json \<Rightarrow> json" where
  "envelope type data opts =
     JObj ([(''type'', JStr type)]
           @ (case data of None \<Rightarrow> [] | Some d \<Rightarrow> [(''data'', d)])
           @ [(''defaultedOptions'', opts)])"

definition postMessage ::
  "jsval \<Rightarrow> string \<Rightarrow> json option \<Rightarrow> json option \<Rightarrow> error + nat \<times> string \<times> string" where
  "postMessage target type data options =
     (case defaultedOptions options of
        Inl e \<Rightarrow> Inl e
      | Inr opts \<Rightarrow>
          (case target of
             Window w \<Rightarrow>
               (case defaultedOptions_targetOrigin opts of
                  Some (JStr targetOrigin) \<Rightarrow>
                    Inr (w, JSON_stringify (envelope (normalise_type type) data opts), targetOrigin)
                | _ \<Rightarrow> Inl Unmodelled)
           | _ \<Rightarrow> Inl TypeError))"

text \<open>
  A handle returned by \<open>receiveMessage\<close>: the \<open>type\<close> and the closure \<open>scoped\<close> its
  \<open>off\<close> passes to \<open>removeEventListener\<close>.
\<close>

type_synonym handle = "string \<times> handler"

definition off :: "handle \<Rightarrow> state \<Rightarrow> state" where
  "off l s = removeEventListener (fst l) (snd l) s"

definition receiveMessage ::
  "host \<Rightarrow> jsval \<Rightarrow> jsval \<Rightarrow> jsval \<Rightarrow> jsval \<Rightarrow> state \<Rightarrow> state \<times> (error + handle)" where
  "receiveMessage h source type callback context s =
     (let (source, type, callback, context) =
            (case source of
               Str str \<Rightarrow> (Null, source, type, callback)
             | _ \<Rightarrow> (source, type, callback, context));
          context = (if truthy context then context else module_this h);
          scoped = Scoped (next_id s) source callback context
      in case type of
           Str t \<Rightarrow> (addEventListener t scoped (s\<lparr>next_id := Suc (next_id s)\<rparr>), Inr (t, scoped))
         | _ \<Rightarrow> (s, Inl Unmodelled))"

definition receiveMessageOnce ::
  "host \<Rightarrow> jsval \<Rightarrow> jsval \<Rightarrow> jsval \<Rightarrow> jsval \<Rightarrow> state \<Rightarrow> state \<times> (error + handle)" where
  "receiveMessageOnce h source type callback context s =
     receiveMessage h source type (OnceCallback callback (next_id s)) context s"

text \<open>
  The registration whose handle the arrow function of \<open>receiveMessageOnce\<close> holds in
  \<open>listener\<close>, and that handle's \<open>off\<close>.
\<close>

definition listener_off :: "nat \<Rightarrow> state \<Rightarrow> state" where
  "listener_off k s =
     s\<lparr>listeners := filter (\<lambda>l. case snd l of Scoped k' _ _ _ \<Rightarrow> k' \<noteq> k | _ \<Rightarrow> True) (listeners s)\<rparr>"

text \<open>
  \<open>f.apply(thisArg, e)\<close> with an event \<open>e\<close> in the place of the argument array: the
  arguments are the elements \<open>e[0], \<dots>, e[e.length - 1]\<close>, and an event has no
  \<open>length\<close>, so there are none. Arguments of \<open>apply\<close> after the second are ignored.
\<close>

definition arguments_of_event :: "jsval list" where
  "arguments_of_event = []"

definition call_function :: "nat \<Rightarrow> jsval \<Rightarrow> jsval list \<Rightarrow> state \<Rightarrow> state" where
  "call_function f this args s = s\<lparr>calls := calls s @ [(f, this, args)]\<rparr>"

definition report :: "error \<Rightarrow> state \<Rightarrow> state" where
  "report e s = s\<lparr>reported := reported s @ [e]\<rparr>"

text \<open>
  The body of the arrow function of \<open>receiveMessageOnce\<close>. Reading \<open>arguments\<close> where
  nothing binds it throws before the call, and \<open>listener.off()\<close> is not reached.
\<close>

definition once_body :: "host \<Rightarrow> jsval \<Rightarrow> nat \<Rightarrow> state \<Rightarrow> state" where
  "once_body h callback k s =
     (if truthy callback then
        (case module_arguments h of
           None \<Rightarrow> report ReferenceError s
         | Some args \<Rightarrow>
             (case callback of
                Function f \<Rightarrow> listener_off k (call_function f (module_this h) args s)
              | OnceCallback _ _ \<Rightarrow> report Unmodelled s
              | _ \<Rightarrow> report TypeError s))
      else listener_off k s)"

text \<open>\<open>callback.apply(context, e, ...rest)\<close> in \<open>scoped\<close>.\<close>

definition apply_callback :: "host \<Rightarrow> jsval \<Rightarrow> jsval \<Rightarrow> state \<Rightarrow> state" where
  "apply_callback h callback context s =
     (case callback of
        Function f \<Rightarrow> call_function f context arguments_of_event s
      | OnceCallback cb k \<Rightarrow> once_body h cb k s
      | _ \<Rightarrow> report TypeError s)"

definition scoped :: "host \<Rightarrow> jsval \<Rightarrow> jsval \<Rightarrow> jsval \<Rightarrow> jsval \<Rightarrow> state \<Rightarrow> state" where
  "scoped h source callback context e_source s =
     (if truthy source \<and> source \<noteq> e_source \<and> contentWindow source \<noteq> e_source then s
      else apply_callback h callback context s)"

text \<open>
  \<open>dispatchEvent\<close> for an event made by the module: the listeners registered for the
  type when the dispatch starts are called in order, each if still registered; what a
  listener throws is reported and the dispatch goes on. The module's own handler
  registered for such a type would re-enter it and is not followed.
\<close>

fun run_listeners :: "host \<Rightarrow> (string \<times> handler) list \<Rightarrow> string \<Rightarrow> jsval \<Rightarrow> state \<Rightarrow> state" where
  "run_listeners h [] type e_source s = s"
| "run_listeners h (l # ls) type e_source s =
     run_listeners h ls type e_source
       (if fst l = type \<and> l \<in> set (listeners s) then
          (case snd l of
             Scoped k source callback context \<Rightarrow> scoped h source callback context e_source s
           | HandleReceiveMessage \<Rightarrow> report Unmodelled s)
        else s)"

definition dispatchEvent :: "host \<Rightarrow> string \<Rightarrow> json option \<Rightarrow> jsval \<Rightarrow> state \<Rightarrow> state" where
  "dispatchEvent h type detail e_source s =
     run_listeners h (listeners s) type e_source
       (s\<lparr>emitted := emitted s @ [(type, detail, e_source)]\<rparr>)"

definition removePostMessageOrigin :: "host \<Rightarrow> string \<Rightarrow> state \<Rightarrow> state \<times> error option" where
  "removePostMessageOrigin h origin s =
     (case indexOf (allowedOrigins s) origin of
        None \<Rightarrow> (s, None)
      | Some index \<Rightarrow>
          (let s1 = s\<lparr>allowedOrigins := splice1 (allowedOrigins s) index\<rparr>
           in case compileOriginRegExp h (allowedOrigins s1) of
                Inl e \<Rightarrow> (s1, Some e)
              | Inr re \<Rightarrow> (s1\<lparr>postMessageAllowedOriginRegex := re\<rparr>, None)))"

definition addPostMessageOrigin :: "host \<Rightarrow> string \<Rightarrow> state \<Rightarrow> state \<times> error option" where
  "addPostMessageOrigin h origin s =
     (if isWildcard origin then (s\<lparr>allowedOrigins := [ALLOW_WILDCARD]\<rparr>, None)
      else if indexOf (allowedOrigins s) origin = None then
        (case removePostMessageOrigin h ALLOW_WILDCARD s of
           (s1, Some e) \<Rightarrow> (s1, Some e)
         | (s1, None) \<Rightarrow>
             (let s2 = s1\<lparr>allowedOrigins := allowedOrigins s1 @ [origin]\<rparr>
              in case compileOriginRegExp h (allowedOrigins s2) of
                   Inl e \<Rightarrow> (s2, Some e)
                 | Inr re \<Rightarrow> (s2\<lparr>postMessageAllowedOriginRegex := re\<rparr>, None)))
      else (s, None))"

text \<open>The origin test at the head of \<open>handleReceiveMessage\<close>: true when the event goes on.\<close>

definition origin_allowed :: "host \<Rightarrow> state \<Rightarrow> string \<Rightarrow> bool" where
  "origin_allowed h s origin =
     (\<not> (origin \<noteq> location_origin h
         \<and> \<not> RegExp_test h (postMessageAllowedOriginRegex s) origin
         \<and> origin \<noteq> ''null''))"

text \<open>\<open>type.split('.', 2)[1]\<close>: the text between the first dot and the second.\<close>

definition second_segment :: "string \<Rightarrow> string option" where
  "second_segment type =
     (case dropWhile (\<lambda>c. c \<noteq> CHR ''.'') type of
        [] \<Rightarrow> None
      | d # rest \<Rightarrow> Some (takeWhile (\<lambda>c. c \<noteq> CHR ''.'') rest))"

text \<open>
  \<open>proxies\<close> is an ordinary object, so a key it does not have itself is looked up in
  \<open>Object.prototype\<close>, where these names are found.
\<close>

definition Object_prototype_keys :: "string list" where
  "Object_prototype_keys =
     [''constructor'', ''hasOwnProperty'', ''isPrototypeOf'', ''propertyIsEnumerable'',
      ''toLocaleString'', ''toString'', ''valueOf'', ''__proto__'', ''__defineGetter__'',
      ''__defineSetter__'', ''__lookupGetter__'', ''__lookupSetter__'']"

datatype proxy_entry = Own "jsval list" | Inherited | Missing

definition proxies_get :: "(string \<times> jsval list) list \<Rightarrow> string \<Rightarrow> proxy_entry" where
  "proxies_get ps k =
     (case map_of ps k of
        Some ts \<Rightarrow> Own ts
      | None \<Rightarrow> if k \<in> set Object_prototype_keys then Inherited else Missing)"

text \<open>
  The \<open>forEach\<close> over the targets of a proxied namespace: each send is recorded, and the
  first exception ends the loop and leaves the handler.
\<close>

fun forward :: "jsval list \<Rightarrow> string \<Rightarrow> json option \<Rightarrow> json option \<Rightarrow> state \<Rightarrow> state \<times> error option" where
  "forward [] type data options s = (s, None)"
| "forward (target # targets) type data options s =
     (case postMessage target type data options of
        Inl e \<Rightarrow> (s, Some e)
      | Inr m \<Rightarrow> forward targets type data options (s\<lparr>sent := sent s @ [m]\<rparr>))"

text \<open>
  The \<open>type\<close> of the parsed message as the matcher sees it, which is its text, and whether
  it is a string: on anything else \<open>split\<close> does not exist.
\<close>

definition message_type :: "json \<Rightarrow> error + string \<times> bool" where
  "message_type message =
     (case message of
        JNull \<Rightarrow> Inl TypeError
      | JObj kvs \<Rightarrow>
          (case map_of kvs ''type'' of
             None \<Rightarrow> Inr (''undefined'', False)
           | Some (JStr t) \<Rightarrow> Inr (t, True)
           | Some JNull \<Rightarrow> Inr (''null'', False)
           | Some (JBool b) \<Rightarrow> Inr (if b then ''true'' else ''false'', False)
           | Some (JNum i) \<Rightarrow> Inr (show_int i, False)
           | Some _ \<Rightarrow> Inl Unmodelled)
      | _ \<Rightarrow> Inr (''undefined'', False))"

definition handleReceiveMessage ::
  "host \<Rightarrow> string \<Rightarrow> string \<Rightarrow> jsval \<Rightarrow> state \<Rightarrow> state \<times> error option" where
  "handleReceiveMessage h e_origin e_data e_source s =
     (if \<not> origin_allowed h s e_origin then (s, None)
      else case JSON_parse e_data of
        Inl err \<Rightarrow> (s, Some err)
      | Inr message \<Rightarrow>
          (case message_type message of
             Inl err \<Rightarrow> (s, Some err)
           | Inr (type, is_string) \<Rightarrow>
               if \<not> RegExp_test h (messageNamespacesRegex s) type then (s, None)
               else if \<not> is_string then (s, Some TypeError)
               else
                 (let namespace = (case second_segment type of None \<Rightarrow> ''undefined'' | Some n \<Rightarrow> n);
                      data = message_field message ''data'';
                      options = message_field message ''options'';
                      r = (case proxies_get (proxies s) namespace of
                             Missing \<Rightarrow> (s, None)
                           | Inherited \<Rightarrow> (s, Some TypeError)
                           | Own targets \<Rightarrow> forward targets type data options s)
                  in case r of
                       (s1, Some err) \<Rightarrow> (s1, Some err)
                     | (s1, None) \<Rightarrow> (dispatchEvent h type data e_source s1, None))))"

text \<open>
  The host delivers a message event to the window: every listener registered for
  \<open>message\<close> is called, and what it throws is reported.
\<close>

fun deliver_to :: "host \<Rightarrow> (string \<times> handler) list \<Rightarrow> string \<Rightarrow> string \<Rightarrow> jsval \<Rightarrow> state \<Rightarrow> state" where
  "deliver_to h [] e_origin e_data e_source s = s"
| "deliver_to h (l # ls) e_origin e_data e_source s =
     deliver_to h ls e_origin e_data e_source
       (if fst l = ''message'' \<and> l \<in> set (listeners s) then
          (case snd l of
             Scoped k source callback context \<Rightarrow> scoped h source callback context e_source s
           | HandleReceiveMessage \<Rightarrow>
               (case handleReceiveMessage h e_origin e_data e_source s of
                  (s1, None) \<Rightarrow> s1
                | (s1, Some err) \<Rightarrow> report err s1))
        else s)"

definition message_event :: "host \<Rightarrow> string \<Rightarrow> string \<Rightarrow> jsval \<Rightarrow> state \<Rightarrow> state" where
  "message_event h e_origin e_data e_source s =
     deliver_to h (listeners s) e_origin e_data e_source s"

definition listen :: "host \<Rightarrow> string \<Rightarrow> state \<Rightarrow> state \<times> error option" where
  "listen h namespace s =
     (let r = (if indexOf (messageNamespaces s) namespace = None then
                 (let s1 = s\<lparr>messageNamespaces := messageNamespaces s @ [namespace]\<rparr>
                  in case compileNamespaceRegExp h (messageNamespaces s1) of
                       Inl e \<Rightarrow> (s1, Some e)
                     | Inr re \<Rightarrow> (s1\<lparr>messageNamespacesRegex := re\<rparr>, None))
               else (s, None))
      in case r of
           (s2, Some e) \<Rightarrow> (s2, Some e)
         | (s2, None) \<Rightarrow>
             (if \<not> listening s2 then
                ((addEventListener ''message'' HandleReceiveMessage s2)\<lparr>listening := True\<rparr>, None)
              else (s2, None)))"

definition stopListening :: "host \<Rightarrow> string \<Rightarrow> state \<Rightarrow> state \<times> error option" where
  "stopListening h namespace s =
     (case indexOf (messageNamespaces s) namespace of
        None \<Rightarrow> (s, None)
      | Some index \<Rightarrow>
          (let s1 = s\<lparr>messageNamespaces := splice1 (messageNamespaces s) index\<rparr>
           in if length (messageNamespaces s1) \<noteq> 0 then
                (case compileNamespaceRegExp h (messageNamespaces s1) of
                   Inl e \<Rightarrow> (s1, Some e)
                 | Inr re \<Rightarrow> (s1\<lparr>messageNamespacesRegex := re\<rparr>, None))
              else ((removeEventListener ''message'' HandleReceiveMessage s1)\<lparr>listening := False\<rparr>,
                    None)))"




section \<open>Notions used in the statements\<close>

text \<open>
  The states of the trusted-origin list: the initial one and what any sequence of
  \<open>addPostMessageOrigin\<close> and \<open>removePostMessageOrigin\<close> calls leaves, also a call that
  threw.
\<close>

inductive reachable_origins :: "host \<Rightarrow> state \<Rightarrow> bool" for h :: host where
  start: "reachable_origins h (init h)"
| added: "reachable_origins h s \<Longrightarrow> reachable_origins h (fst (addPostMessageOrigin h origin s))"
| removed: "reachable_origins h s \<Longrightarrow> reachable_origins h (fst (removePostMessageOrigin h origin s))"

definition origins_inv :: "string list \<Rightarrow> bool" where
  "origins_inv xs \<longleftrightarrow> (ALLOW_WILDCARD \<in> set xs \<longrightarrow> xs = [ALLOW_WILDCARD])"



text \<open>
  A page for the concrete runs below: its origin, and the module evaluated as a module, so
  that \<open>this\<close> is undefined and \<open>arguments\<close> unbound at its top level. Every pattern
  compiled in those runs is one the parser reads, so the engine of the page is never
  asked; it is given as one that accepts no other pattern.
\<close>

definition page :: host where
  "page = \<lparr>location_origin = ''https://host.example'', module_this = Undefined,
            module_arguments = None,
            regexp_compiles = (\<lambda>p. False), regexp_test = (\<lambda>p ic s. False)\<rparr>"


text \<open>
  For the origin check: the characters that stand for themselves, or for any character in
  the case of the dot, when pasted into a pattern; the term such a character parses to;
  and the comparison that such a text, used as a pattern, makes with an origin string,
  letter case ignored and a dot standing for any character but a line terminator.
\<close>

definition literal_char :: "char \<Rightarrow> bool" where
  "literal_char c = (c \<notin> set ''()|*+?[]{}^$'' \<and> c \<noteq> bs)"

definition lit :: "char \<Rightarrow> regex" where
  "lit c = (if c = CHR ''.'' then AnyChr else Chr c)"

definition lits :: "string \<Rightarrow> (regex \<times> term_kind) list" where
  "lits x = rev (map (\<lambda>c. (lit c, Atom)) x)"

fun pattern_matches :: "string \<Rightarrow> string \<Rightarrow> bool" where
  "pattern_matches [] [] = True"
| "pattern_matches (p # ps) (c # cs) =
     ((if p = CHR ''.'' then \<not> line_terminator c else upcase c = upcase p) \<and> pattern_matches ps cs)"
| "pattern_matches _ _ = False"

text \<open>
  The parser's frame after the origins joined by bars, each origin of literal characters,
  and the terms that the fixed head of the origin pattern leaves.
\<close>

fun frames_after :: "regex list \<Rightarrow> (regex \<times> term_kind) list \<Rightarrow> string list \<Rightarrow> frame" where
  "frames_after alts cur [] = (alts, cur)"
| "frames_after alts cur [x] = (alts, lits x @ cur)"
| "frames_after alts cur (x # y # ys) = frames_after (seq_of (lits x @ cur) # alts) [] (y # ys)"

definition origin_prefix :: "(regex \<times> term_kind) list" where
  "origin_prefix =
     lits ''://'' @ [(Alt (Cat (Chr CHR ''s'') Emp) Emp, Quantified)] @ lits ''http'' @ [(Bol, Assertion)]"

section \<open>Matching: basic facts\<close>

lemma list_ex_upt: "list_ex P [a..<b] \<longleftrightarrow> (\<exists>k. a \<le> k \<and> k < b \<and> P k)"
  by (auto simp add: list_ex_iff)

lemma rx_match_Emp [simp]: "rx_match ic s Emp i j \<longleftrightarrow> j = i"
  by (simp add: rx_match_def)

lemma rx_match_Chr [simp]:
  "rx_match ic s (Chr c) i j \<longleftrightarrow> i < length s \<and> j = Suc i \<and> char_eq ic (s ! i) c"
  by (auto simp add: rx_match_def)

lemma rx_match_AnyChr [simp]:
  "rx_match ic s AnyChr i j \<longleftrightarrow> i < length s \<and> j = Suc i \<and> \<not> line_terminator (s ! i)"
  by (auto simp add: rx_match_def)

lemma rx_match_Bol [simp]: "rx_match ic s Bol i j \<longleftrightarrow> i = 0 \<and> j = 0"
  by (auto simp add: rx_match_def)

lemma rx_match_Eol [simp]: "rx_match ic s Eol i j \<longleftrightarrow> i = length s \<and> j = length s"
  by (auto simp add: rx_match_def)

lemma rx_match_Cat_iff:
  "rx_match ic s (Cat a b) i j \<longleftrightarrow> (\<exists>k. rx_match ic s a i k \<and> rx_match ic s b k j)"
  by (auto simp add: rx_match_def)

lemma rx_match_Alt_iff:
  "rx_match ic s (Alt a b) i j \<longleftrightarrow> rx_match ic s a i j \<or> rx_match ic s b i j"
  by (auto simp add: rx_match_def)

lemma regex_test_iff:
  "regex_test re s \<longleftrightarrow> (\<exists>i j. i \<le> length s \<and> rx_match (fst re) s (snd re) i j)"
proof -
  have "\<And>xs :: nat list. xs \<noteq> [] \<longleftrightarrow> (\<exists>j. j \<in> set xs)"
    by (metis equals0I empty_iff set_empty)
  then show ?thesis
    unfolding regex_test_def list_ex_upt rx_match_def less_Suc_eq_le by simp
qed

lemma RE_WILDCARD_eq: "RE_WILDCARD = (False, Cat (Chr CHR ''*'') Emp)"
  by code_simp

lemma isWildcard_iff: "isWildcard origin \<longleftrightarrow> CHR ''*'' \<in> set origin"
proof -
  have "isWildcard origin \<longleftrightarrow> (\<exists>i < length origin. origin ! i = CHR ''*'')"
    unfolding isWildcard_def RE_WILDCARD_eq regex_test_iff fst_conv snd_conv rx_match_Cat_iff
    by (auto simp add: char_eq_def intro: less_imp_le)
  then show ?thesis by (auto simp add: in_set_conv_nth)
qed

lemma indexOf_None_iff: "indexOf xs x = None \<longleftrightarrow> x \<notin> set xs"
  by (induction xs) auto

lemma compile_no_origin_isr: "\<not> isl (compileOriginRegExp h [])"
  by code_simp

lemma compile_no_origin: "\<exists>re. compileOriginRegExp h [] = Inr re"
  using compile_no_origin_isr[of h] by (cases "compileOriginRegExp h []") auto

section \<open>The trusted-origin list\<close>

lemma set_splice1: "set (splice1 xs i) \<subseteq> set xs"
  unfolding splice1_def using set_take_subset set_drop_subset by (metis Un_mono set_append sup.idem)

lemma allowed_remove:
  "allowedOrigins (fst (removePostMessageOrigin h origin s)) =
     (case indexOf (allowedOrigins s) origin of None \<Rightarrow> allowedOrigins s
      | Some i \<Rightarrow> splice1 (allowedOrigins s) i)"
  by (simp add: removePostMessageOrigin_def Let_def split: option.splits sum.splits)

lemma indexOf_single: "indexOf [x] y = (if x = y then Some 0 else None)"
  by simp

lemma inv_remove: "origins_inv (allowedOrigins s) \<Longrightarrow> origins_inv (allowedOrigins (fst (removePostMessageOrigin h origin s)))"
  unfolding allowed_remove origins_inv_def
  apply (cases "ALLOW_WILDCARD \<in> set (allowedOrigins s)")
   apply (auto simp add: splice1_def split: option.splits)[1]
  using set_splice1 by (fastforce split: option.splits)

lemma remove_wildcard_gone:
  "origins_inv (allowedOrigins s) \<Longrightarrow> ALLOW_WILDCARD \<notin> set (allowedOrigins (fst (removePostMessageOrigin h ALLOW_WILDCARD s)))"
  unfolding allowed_remove origins_inv_def
  apply (cases "ALLOW_WILDCARD \<in> set (allowedOrigins s)")
   apply (auto simp add: splice1_def split: option.splits)[1]
  using indexOf_None_iff[of "allowedOrigins s" ALLOW_WILDCARD]
  apply (auto split: option.splits)
  done

lemma allowed_add:
  "allowedOrigins (fst (addPostMessageOrigin h origin s)) =
     (if isWildcard origin then [ALLOW_WILDCARD]
      else if origin \<in> set (allowedOrigins s) then allowedOrigins s
      else (case snd (removePostMessageOrigin h ALLOW_WILDCARD s) of
              Some e \<Rightarrow> allowedOrigins (fst (removePostMessageOrigin h ALLOW_WILDCARD s))
            | None \<Rightarrow> allowedOrigins (fst (removePostMessageOrigin h ALLOW_WILDCARD s)) @ [origin]))"
  by (auto simp add: addPostMessageOrigin_def Let_def indexOf_None_iff split: option.splits sum.splits prod.splits)

lemma wildcard_is_wildcard: "isWildcard ALLOW_WILDCARD"
  by (simp add: isWildcard_iff ALLOW_WILDCARD_def)

lemma inv_add: "origins_inv (allowedOrigins s) \<Longrightarrow> origins_inv (allowedOrigins (fst (addPostMessageOrigin h origin s)))"
  unfolding allowed_add
  using remove_wildcard_gone[of s] wildcard_is_wildcard
  by (auto simp add: origins_inv_def split: option.splits)

lemma reachable_inv: "reachable_origins h s \<Longrightarrow> origins_inv (allowedOrigins s)"
proof (induction rule: reachable_origins.induct)
  case start
  show ?case by (simp add: origins_inv_def init_def)
next
  case (added s origin)
  from added.IH show ?case by (rule inv_add)
next
  case (removed s origin)
  from removed.IH show ?case by (rule inv_remove)
qed

lemma remove_wildcard_from_single:
  "allowedOrigins s = [ALLOW_WILDCARD] \<Longrightarrow>
   allowedOrigins (fst (removePostMessageOrigin h ALLOW_WILDCARD s)) = []
   \<and> snd (removePostMessageOrigin h ALLOW_WILDCARD s) = None"
  using compile_no_origin[of h]
  by (auto simp add: removePostMessageOrigin_def splice1_def Let_def split: sum.splits)

text \<open>
  C10. In every state reached from the initial one by \<open>addPostMessageOrigin\<close> and
  \<open>removePostMessageOrigin\<close> calls, the wildcard entry, when present in the trusted
  list, is its only member; adding an origin that \<open>isWildcard\<close> accepts leaves exactly
  the wildcard entry; and adding any other origin while the wildcard is present leaves
  exactly that origin, the wildcard having been removed first.
\<close>

theorem wildcard_sole_member:
  assumes "reachable_origins h s"
  shows "(ALLOW_WILDCARD \<in> set (allowedOrigins s) \<longrightarrow> allowedOrigins s = [ALLOW_WILDCARD])
       \<and> (isWildcard origin \<longrightarrow>
            allowedOrigins (fst (addPostMessageOrigin h origin s)) = [ALLOW_WILDCARD])
       \<and> (\<not> isWildcard origin \<and> ALLOW_WILDCARD \<in> set (allowedOrigins s) \<longrightarrow>
            allowedOrigins (fst (addPostMessageOrigin h origin s)) = [origin])"
proof -
  have inv: "origins_inv (allowedOrigins s)" using assms by (rule reachable_inv)
  have a: "ALLOW_WILDCARD \<in> set (allowedOrigins s) \<longrightarrow> allowedOrigins s = [ALLOW_WILDCARD]"
    using inv by (simp add: origins_inv_def)
  have b: "isWildcard origin \<longrightarrow> allowedOrigins (fst (addPostMessageOrigin h origin s)) = [ALLOW_WILDCARD]"
    by (simp add: allowed_add)
  have c: "\<not> isWildcard origin \<and> ALLOW_WILDCARD \<in> set (allowedOrigins s) \<longrightarrow>
            allowedOrigins (fst (addPostMessageOrigin h origin s)) = [origin]"
  proof
    assume h: "\<not> isWildcard origin \<and> ALLOW_WILDCARD \<in> set (allowedOrigins s)"
    then have single: "allowedOrigins s = [ALLOW_WILDCARD]" using a by simp
    have ne: "origin \<noteq> ALLOW_WILDCARD" using h wildcard_is_wildcard by auto
    show "allowedOrigins (fst (addPostMessageOrigin h origin s)) = [origin]"
      using h ne single remove_wildcard_from_single[OF single]
      by (simp add: allowed_add)
  qed
  from a b c show ?thesis by blast
qed

theorem wildcard_sole_member_witness:
  "reachable_origins page (fst (addPostMessageOrigin page ''*'' (fst (addPostMessageOrigin page ''a.com'' (init page)))))
   \<and> allowedOrigins (fst (addPostMessageOrigin page ''*'' (fst (addPostMessageOrigin page ''a.com'' (init page))))) = [''.*'']
   \<and> allowedOrigins (fst (addPostMessageOrigin page ''b.com''
        (fst (addPostMessageOrigin page ''*'' (fst (addPostMessageOrigin page ''a.com'' (init page))))))) = [''b.com'']"
proof -
  let ?s1 = "fst (addPostMessageOrigin page ''a.com'' (init page))"
  let ?s = "fst (addPostMessageOrigin page ''*'' ?s1)"
  have r1: "reachable_origins page ?s1" by (intro reachable_origins.intros)
  have r: "reachable_origins page ?s" by (intro reachable_origins.intros)
  have w: "\<not> isWildcard ''b.com''" by (simp add: isWildcard_iff)
  have m: "isWildcard ''*''" by (simp add: isWildcard_iff)
  have e: "allowedOrigins ?s = [ALLOW_WILDCARD]"
    using wildcard_sole_member[OF r1, where origin = "''*''"] m by blast
  have "allowedOrigins (fst (addPostMessageOrigin page ''b.com'' ?s)) = [''b.com'']"
    using wildcard_sole_member[OF r, where origin = "''b.com''"] w e by simp
  with r e show ?thesis by (simp add: ALLOW_WILDCARD_def)
qed

section \<open>Sending\<close>







lemma map_of_set_prop: "map_of (set_prop kvs k v) = (map_of kvs)(k \<mapsto> v)"
  by (induction kvs) auto

lemma defaultedOptions_reads_default:
  "defaultedOptions options = Inr opts \<Longrightarrow> defaultedOptions_targetOrigin opts = Some (JStr ''*'')"
  by (auto simp add: defaultedOptions_def defaultedOptions_targetOrigin_def
        DEFAULT_POSTMESSAGE_OPTIONS_def message_field_def map_of_set_prop
        split: option.splits json.splits)

lemma postMessage_Inr_iff:
  "postMessage target type data options = Inr m \<longleftrightarrow>
     (\<exists>opts w. defaultedOptions options = Inr opts \<and> target = Window w
        \<and> m = (w, JSON_stringify (envelope (normalise_type type) data opts), ''*''))"
proof (cases "defaultedOptions options")
  case (Inl e)
  then show ?thesis by (simp add: postMessage_def)
next
  case (Inr opts)
  note t = defaultedOptions_reads_default[OF Inr]
  show ?thesis using Inr t by (cases target) (auto simp add: postMessage_def)
qed











text \<open>
  C2. The text handed to the window's \<open>postMessage\<close> for
  \<open>postMessage(w, "init.dfp", {x:1})\<close>: its third field is named
  \<open>defaultedOptions\<close>, and parsed back it has no field \<open>options\<close>, the one
  \<open>handleReceiveMessage\<close> reads.
\<close>

theorem envelope_third_field_name:
  "postMessage (Window 0) ''init.dfp'' (Some (JObj [(''x'', JNum 1)])) None =
     Inr (0, ''{'' @ [dq] @ ''type'' @ [dq] @ '':'' @ [dq] @ ''init.dfp'' @ [dq] @ '',''
              @ [dq] @ ''data'' @ [dq] @ '':{'' @ [dq] @ ''x'' @ [dq] @ '':1},''
              @ [dq] @ ''defaultedOptions'' @ [dq] @ '':{'' @ [dq] @ ''targetOrigin'' @ [dq] @ '':''
              @ [dq] @ ''*'' @ [dq] @ ''}}'', ''*'')
   \<and> map_sum id (\<lambda>m. (message_field m ''options'', message_field m ''defaultedOptions''))
        (JSON_parse (fst (snd (projr (postMessage (Window 0) ''init.dfp'' (Some (JObj [(''x'', JNum 1)])) None)))))
      = Inr (None, Some (JObj [(''targetOrigin'', JStr ''*'')]))"
  by code_simp

lemma postMessage_target_origin:
  "postMessage target type data options = Inr (w, text, origin) \<Longrightarrow> origin = ''*''"
  unfolding postMessage_Inr_iff by auto

text \<open>
  C3. A caller's \<open>targetOrigin\<close> is overwritten by the default: for
  \<open>postMessage(w, "init.dfp", {x:1}, {targetOrigin: "https://a.example"})\<close> the window's
  \<open>postMessage\<close> is called with target origin \<open>*\<close>, and the text carries \<open>*\<close> too.
\<close>

theorem caller_targetOrigin_discarded:
  "postMessage (Window 0) ''init.dfp'' (Some (JObj [(''x'', JNum 1)]))
       (Some (JObj [(''targetOrigin'', JStr ''https://a.example'')])) =
     Inr (0, ''{'' @ [dq] @ ''type'' @ [dq] @ '':'' @ [dq] @ ''init.dfp'' @ [dq] @ '',''
              @ [dq] @ ''data'' @ [dq] @ '':{'' @ [dq] @ ''x'' @ [dq] @ '':1},''
              @ [dq] @ ''defaultedOptions'' @ [dq] @ '':{'' @ [dq] @ ''targetOrigin'' @ [dq] @ '':''
              @ [dq] @ ''*'' @ [dq] @ ''}}'', ''*'')"
  by code_simp

section \<open>Receiving\<close>

text \<open>
  C1. The parent calls \<open>listen("dfp")\<close> and \<open>receiveMessageOnce("init.dfp", cb)\<close>, and
  the text of \<open>postMessage(parent, "init.dfp", {x:1})\<close> arrives from an allowed origin.
  The event dispatched carries the detail \<open>{x:1}\<close>, and \<open>cb\<close> (function 0) is called
  once, with no argument at all: \<open>scoped\<close> hands the event to \<open>apply\<close> as the argument
  array.
\<close>

theorem once_callback_gets_no_payload:
  "(let s1 = fst (listen page ''dfp'' (init page));
        s2 = fst (receiveMessageOnce page (Str ''init.dfp'') (Function 0) Undefined Undefined s1);
        text = fst (snd (projr (postMessage (Window 0) ''init.dfp'' (Some (JObj [(''x'', JNum 1)])) None)));
        s3 = message_event page ''https://frame.example'' text (Window 1) s2
    in (calls s3, emitted s3, reported s3))
   = ([(0, OnceCallback Undefined 0, [])],
      [(''init.dfp'', Some (JObj [(''x'', JNum 1)]), Window 1)],
      [])"
  by code_simp

text \<open>
  C7. With the same registration, two matching messages call \<open>cb\<close> twice, and the
  listener is still registered: \<open>receiveMessageOnce\<close> passes the unshifted arguments on,
  so \<open>receiveMessage\<close> takes \<open>cb\<close> for the callback and the detaching arrow function
  for the context.
\<close>

theorem once_callback_fires_twice:
  "(let s1 = fst (listen page ''dfp'' (init page));
        s2 = fst (receiveMessageOnce page (Str ''init.dfp'') (Function 0) Undefined Undefined s1);
        text = fst (snd (projr (postMessage (Window 0) ''init.dfp'' (Some (JObj [(''x'', JNum 1)])) None)));
        s3 = message_event page ''https://frame.example'' text (Window 1) s2;
        s4 = message_event page ''https://frame.example'' text (Window 1) s3
    in (calls s4, listeners s4))
   = ([(0, OnceCallback Undefined 0, []), (0, OnceCallback Undefined 0, [])],
      [(''message'', HandleReceiveMessage),
       (''init.dfp'', Scoped 0 Null (Function 0) (OnceCallback Undefined 0))])"
  by code_simp

lemma once_off_before_message:
  "(let s1 = fst (listen page ''dfp'' (init page));
        r = receiveMessageOnce page (Str ''init.dfp'') (Function 0) Undefined Undefined s1;
        s2 = off (projr (snd r)) (fst r);
        text = fst (snd (projr (postMessage (Window 0) ''init.dfp'' (Some (JObj [(''x'', JNum 1)])) None)));
        s3 = message_event page ''https://frame.example'' text (Window 1) s2
    in (calls s3, emitted s3))
   = ([], [(''init.dfp'', Some (JObj [(''x'', JNum 1)]), Window 1)])"
  by code_simp

text \<open>
  C5. The text of \<open>postMessage(w, "init", {x:1})\<close> has the type \<open>init.postMessage\<close>,
  the default namespace. Arriving from an allowed origin at a page that listens, it is
  dropped: the state is unchanged and no event is emitted. The namespace list holds
  \<open>.postMessage\<close> with its dot, and the matcher puts another dot before it.
\<close>

theorem default_namespace_dropped:
  "(let s1 = fst (listen page ''dfp'' (init page));
        text = fst (snd (projr (postMessage (Window 0) ''init'' (Some (JObj [(''x'', JNum 1)])) None)));
        s2 = message_event page ''https://frame.example'' text (Window 1) s1
    in (map_sum id (\<lambda>m. message_field m ''type'') (JSON_parse text),
        origin_allowed page s1 ''https://frame.example'',
        messageNamespaces s1, s2 = s1, emitted s2))
   = (Inr (Some (JStr ''init.postMessage'')), True, [''.postMessage'', ''dfp''], True, [])"
  by code_simp

text \<open>
  C6, as stated, fails: after \<open>listen("dfp")\<close> and \<open>stopListening("dfp")\<close> from the
  initial state the default namespace is still active, the handler is still attached, and
  a message of that namespace is emitted as a local event.
\<close>

theorem listen_stop_counterexample:
  "(let s = fst (stopListening page ''dfp'' (fst (listen page ''dfp'' (init page))));
        text = JSON_stringify (JObj [(''type'', JStr ''init..postMessage'')])
    in (messageNamespaces s, listening s, listeners s,
        emitted (message_event page ''https://frame.example'' text (Window 1) s)))
   = ([''.postMessage''], True, [(''message'', HandleReceiveMessage)],
      [(''init..postMessage'', None, Window 1)])"
  by code_simp

lemma listen_stop_state:
  "stopListening h ''dfp'' (fst (listen h ''dfp'' (init h))) =
     ((init h)\<lparr>listening := True, listeners := [(''message'', HandleReceiveMessage)]\<rparr>, None)
   \<and> snd (listen h ''dfp'' (init h)) = None"
  by code_simp

lemma stop_default_state:
  "(let s = fst (stopListening h DEFAULT_MESSAGE_NAMESPACE
                  (fst (stopListening h ''dfp'' (fst (listen h ''dfp'' (init h))))))
    in (messageNamespaces s, listening s, listeners s)) = ([], False, [])"
  by code_simp

text \<open>
  C6, amended. From the initial state, \<open>listen("dfp")\<close> and then
  \<open>stopListening("dfp")\<close> both return and leave the initial state with the handler
  attached and the listening flag set: the default namespace is still active. Stopping
  the default namespace as well empties the list, clears the flag and detaches the
  handler, and from then on a message event changes nothing.
\<close>

theorem listen_then_stopListening:
  "stopListening h ''dfp'' (fst (listen h ''dfp'' (init h))) =
     ((init h)\<lparr>listening := True, listeners := [(''message'', HandleReceiveMessage)]\<rparr>, None)
   \<and> snd (listen h ''dfp'' (init h)) = None
   \<and> (let s = fst (stopListening h DEFAULT_MESSAGE_NAMESPACE
                     (fst (stopListening h ''dfp'' (fst (listen h ''dfp'' (init h))))))
      in messageNamespaces s = [] \<and> listening s = False \<and> listeners s = []
         \<and> message_event h e_origin e_data e_source s = s)"
proof -
  let ?s = "fst (stopListening h DEFAULT_MESSAGE_NAMESPACE
                     (fst (stopListening h ''dfp'' (fst (listen h ''dfp'' (init h))))))"
  have a: "messageNamespaces ?s = []" "listening ?s = False" "listeners ?s = []"
    using stop_default_state by (simp_all add: Let_def)
  have "message_event h e_origin e_data e_source ?s = ?s"
    unfolding message_event_def a by simp
  with a listen_stop_state show ?thesis by (simp add: Let_def)
qed

section \<open>Proxies\<close>













section \<open>The origin check\<close>

lemma normal_char_literal:
  "literal_char c \<Longrightarrow>
   normal_char c ((alts, cur) # rest) = Inr (Normal, (alts, (lit c, Atom) # cur) # rest)"
  by (auto simp add: normal_char_def literal_char_def lit_def add_term_def bs_def)

lemma parse_literals:
  "list_all literal_char cs \<Longrightarrow>
   parse_loop Normal ((alts, cur) # rest) (cs @ rest_text) =
   parse_loop Normal ((alts, lits cs @ cur) # rest) rest_text"
proof (induction cs arbitrary: cur)
  case Nil
  show ?case by (simp add: lits_def)
next
  case (Cons c cs)
  then show ?case
    by (simp add: parse_step_def normal_char_literal lits_def)
qed

lemma parse_bar:
  "parse_loop Normal [(alts, cur)] (CHR ''|'' # rest_text) = parse_loop Normal [(seq_of cur # alts, [])] rest_text"
  by (simp add: parse_step_def normal_char_def)

lemma parse_join:
  "\<forall>x\<in>set os. list_all literal_char x \<Longrightarrow>
   parse_loop Normal [(alts, cur)] (join ''|'' os @ rest_text) =
   parse_loop Normal [frames_after alts cur os] rest_text"
proof (induction alts cur os rule: frames_after.induct)
  case (1 alts cur)
  show ?case by simp
next
  case (2 alts cur x)
  then show ?case by (simp add: parse_literals)
next
  case (3 alts cur x y ys)
  have "parse_loop Normal [(alts, cur)] (join ''|'' (x # y # ys) @ rest_text) =
        parse_loop Normal [(alts, cur)] (x @ (CHR ''|'' # (join ''|'' (y # ys) @ rest_text)))"
    by simp
  also have "\<dots> = parse_loop Normal [(alts, lits x @ cur)] (CHR ''|'' # (join ''|'' (y # ys) @ rest_text))"
    using 3 by (simp add: parse_literals)
  also have "\<dots> = parse_loop Normal [(seq_of (lits x @ cur) # alts, [])] (join ''|'' (y # ys) @ rest_text)"
    by (rule parse_bar)
  also have "\<dots> = parse_loop Normal [frames_after (seq_of (lits x @ cur) # alts) [] (y # ys)] rest_text"
    using 3 by simp
  finally show ?case by simp
qed

lemma parse_prefix:
  "parse_loop Normal [([], [])] (''^http(s)?:'' @ [bs] @ ''/'' @ [bs] @ ''/'' @ rest_text) =
   parse_loop Normal [([], origin_prefix)] rest_text"
  by (simp add: parse_step_def normal_char_def quantify_def add_term_def close_frame_def
        seq_of_def is_alnum_def bs_def origin_prefix_def lits_def lit_def)

lemma parse_dollar:
  "parse_loop Normal [(alts, cur)] ''$'' = Inr (close_frame (alts, (Eol, Assertion) # cur))"
  by (simp add: parse_step_def normal_char_def add_term_def)

lemma compile_literal_origins:
  assumes "\<forall>x\<in>set os. list_all literal_char x"
  shows "compileOriginRegExp h os =
         Inr (Compiled (True, close_frame (fst (frames_after [] origin_prefix os),
                                           (Eol, Assertion) # snd (frames_after [] origin_prefix os))))"
proof -
  have "parse_regex (''^http(s)?:'' @ [bs] @ ''/'' @ [bs] @ ''/'' @ join ''|'' os @ ''$'') =
        parse_loop Normal [([], origin_prefix)] (join ''|'' os @ ''$'')"
    unfolding parse_regex_def by (rule parse_prefix)
  also have "\<dots> = parse_loop Normal [frames_after [] origin_prefix os] ''$''"
    using assms by (rule parse_join)
  also have "\<dots> = Inr (close_frame (fst (frames_after [] origin_prefix os),
                                 (Eol, Assertion) # snd (frames_after [] origin_prefix os)))"
    using parse_dollar[of "fst (frames_after [] origin_prefix os)" "snd (frames_after [] origin_prefix os)"]
    by simp
  finally show ?thesis by (simp add: compileOriginRegExp_def new_RegExp_def)
qed

lemma rx_match_alt_of:
  "rs \<noteq> [] \<Longrightarrow> rx_match ic s (alt_of rs) i j \<longleftrightarrow> (\<exists>r\<in>set rs. rx_match ic s r i j)"
  by (induction rs rule: alt_of.induct) (auto simp add: rx_match_Alt_iff)

lemma rx_match_foldr_append:
  "rx_match ic s (foldr Cat (xs @ ys) Emp) i j \<longleftrightarrow>
     (\<exists>k. rx_match ic s (foldr Cat xs Emp) i k \<and> rx_match ic s (foldr Cat ys Emp) k j)"
  by (induction xs arbitrary: i) (auto simp add: rx_match_Cat_iff)

lemma seq_of_lits:
  "seq_of (lits x @ cur) = foldr Cat (rev (map fst cur) @ map lit x) Emp"
  by (simp add: seq_of_def lits_def rev_map comp_def)

lemma seq_of_Eol:
  "seq_of ((Eol, Assertion) # cur) = foldr Cat (rev (map fst cur) @ [Eol]) Emp"
  by (simp add: seq_of_def)

lemma rx_match_lit:
  "rx_match True s (lit c) i j \<longleftrightarrow>
     i < length s \<and> j = Suc i
     \<and> (if c = CHR ''.'' then \<not> line_terminator (s ! i) else upcase (s ! i) = upcase c)"
  by (auto simp add: lit_def char_eq_def)

lemma take_Suc_drop: "i < length s \<Longrightarrow> take (Suc n) (drop i s) = s ! i # take n (drop (Suc i) s)"
  by (metis Cons_nth_drop_Suc take_Suc_Cons)

lemma lits_match_iff:
  "i \<le> length s \<Longrightarrow>
   rx_match True s (foldr Cat (map lit x) Emp) i j \<longleftrightarrow>
     j = i + length x \<and> j \<le> length s \<and> pattern_matches x (take (length x) (drop i s))"
proof (induction x arbitrary: i)
  case Nil
  then show ?case by auto
next
  case (Cons c x)
  show ?case
  proof (cases "i < length s")
    case True
    then have "Suc i \<le> length s" by simp
    from Cons.IH[OF this] True show ?thesis
      by (auto simp add: rx_match_Cat_iff rx_match_lit take_Suc_drop)
  next
    case False
    with Cons.prems have "i = length s" by simp
    then show ?thesis by (simp add: rx_match_Cat_iff rx_match_lit)
  qed
qed

lemma pattern_matches_refl: "pattern_matches x x"
  by (induction x) (auto simp add: line_terminator_def)

lemma pattern_matches_length: "pattern_matches p s \<Longrightarrow> length s = length p"
  by (induction p s rule: pattern_matches.induct) auto

lemma pattern_matches_append:
  "pattern_matches (p @ q) s \<longleftrightarrow>
     pattern_matches p (take (length p) s) \<and> pattern_matches q (drop (length p) s)"
proof (induction p arbitrary: s)
  case Nil
  show ?case by simp
next
  case (Cons a p)
  show ?case
  proof (cases s)
    case Nil
    then show ?thesis by simp
  next
    case (Cons c cs)
    then show ?thesis using Cons.IH[of cs] by auto
  qed
qed

lemma frames_after_mono: "set alts \<subseteq> set (fst (frames_after alts cur os))"
  by (induction alts cur os rule: frames_after.induct) auto

lemma frames_accept:
  assumes "x0 \<in> set os"
    and "rx_match True (pre @ x0) (seq_of cur) i0 (length pre)"
    and "i0 \<le> length pre"
  shows "\<exists>r\<in>set (seq_of ((Eol, Assertion) # snd (frames_after alts cur os))
                  # fst (frames_after alts cur os)).
           \<exists>i j. i \<le> length (pre @ x0) \<and> rx_match True (pre @ x0) r i j"
  using assms
proof (induction alts cur os arbitrary: i0 rule: frames_after.induct)
  case (1 alts cur)
  then show ?case by simp
next
  case (2 alts cur x)
  then have x: "x = x0" by simp
  have a: "rx_match True (pre @ x0) (foldr Cat (rev (map fst cur)) Emp) i0 (length pre)"
    using 2(2) by (simp add: seq_of_def)
  have b: "rx_match True (pre @ x0) (foldr Cat (map lit x0) Emp) (length pre) (length (pre @ x0))"
    by (simp add: lits_match_iff pattern_matches_refl)
  have c: "rx_match True (pre @ x0) (foldr Cat [Eol] Emp) (length (pre @ x0)) (length (pre @ x0))"
    by (simp add: rx_match_Cat_iff)
  have "rx_match True (pre @ x0)
          (foldr Cat ((rev (map fst cur) @ map lit x0) @ [Eol]) Emp) i0 (length (pre @ x0))"
    unfolding rx_match_foldr_append[of _ _ "rev (map fst cur) @ map lit x0"]
      rx_match_foldr_append[of _ _ "rev (map fst cur)"]
    using a b c by blast
  then have "rx_match True (pre @ x0) (seq_of ((Eol, Assertion) # lits x0 @ cur)) i0 (length (pre @ x0))"
    by (simp add: seq_of_def lits_def rev_map comp_def)
  then show ?case using x 2(3) by auto
next
  case (3 alts cur x y ys)
  show ?case
  proof (cases "x0 = x")
    case True
    have a: "rx_match True (pre @ x0) (foldr Cat (rev (map fst cur)) Emp) i0 (length pre)"
      using 3(3) by (simp add: seq_of_def)
    have b: "rx_match True (pre @ x0) (foldr Cat (map lit x0) Emp) (length pre) (length (pre @ x0))"
      by (simp add: lits_match_iff pattern_matches_refl)
    have "rx_match True (pre @ x0) (seq_of (lits x @ cur)) i0 (length (pre @ x0))"
      unfolding seq_of_lits rx_match_foldr_append True[symmetric] using a b by blast
    moreover have "seq_of (lits x @ cur) \<in> set (fst (frames_after alts cur (x # y # ys)))"
      using frames_after_mono[of "seq_of (lits x @ cur) # alts" "[]" "y # ys"] by simp
    ultimately show ?thesis using 3(4) by auto
  next
    case False
    then have m: "x0 \<in> set (y # ys)" using 3(2) by simp
    have e: "rx_match True (pre @ x0) (seq_of []) (length pre) (length pre)"
      by (simp add: seq_of_def)
    from 3(1)[OF m e] show ?thesis by simp
  qed
qed

lemma prefix_terms: "rev (map fst origin_prefix) =
    [Bol] @ map lit ''http'' @ [Alt (Cat (Chr CHR ''s'') Emp) Emp] @ map lit ''://''"
  by (simp add: origin_prefix_def lits_def)

lemma prefix_http:
  "rx_match True (''http://'' @ x0) (seq_of origin_prefix) 0 (length ''http://'')"
  unfolding seq_of_def prefix_terms
  by (simp add: rx_match_Cat_iff rx_match_Alt_iff rx_match_lit)

lemma prefix_https:
  "rx_match True (''https://'' @ x0) (seq_of origin_prefix) 0 (length ''https://'')"
  unfolding seq_of_def prefix_terms
  by (simp add: rx_match_Cat_iff rx_match_Alt_iff rx_match_lit char_eq_def)

lemma test_closed_frame:
  "regex_test (True, close_frame (alts, cur)) s \<longleftrightarrow>
     (\<exists>r\<in>set (seq_of cur # alts). \<exists>i j. i \<le> length s \<and> rx_match True s r i j)"
  unfolding regex_test_iff fst_conv snd_conv close_frame_def
  by (subst rx_match_alt_of) auto

lemma RegExp_test_Compiled: "RegExp_test h (Compiled p) s = regex_test p s"
  by (simp add: RegExp_test_def)

lemma literal_origins_accept:
  assumes "\<forall>x\<in>set os. list_all literal_char x" and "x0 \<in> set os"
    and "compileOriginRegExp h os = Inr re"
  shows "RegExp_test h re (''http://'' @ x0)" "RegExp_test h re (''https://'' @ x0)"
proof -
  let ?F = "frames_after [] origin_prefix os"
  have re: "re = Compiled (True, close_frame (fst ?F, (Eol, Assertion) # snd ?F))"
    using compile_literal_origins[OF assms(1), of h] assms(3) by simp
  show "RegExp_test h re (''http://'' @ x0)"
    unfolding re RegExp_test_Compiled test_closed_frame
    by (rule frames_accept[OF assms(2) prefix_http]) simp
  show "RegExp_test h re (''https://'' @ x0)"
    unfolding re RegExp_test_Compiled test_closed_frame
    by (rule frames_accept[OF assms(2) prefix_https]) simp
qed

lemma rx_match_opt_s:
  "rx_match True s (Alt (Cat (Chr CHR ''s'') Emp) Emp) i k \<longleftrightarrow>
     k = i \<or> (i < length s \<and> k = Suc i \<and> upcase (s ! i) = upcase CHR ''s'')"
  by (auto simp add: rx_match_Alt_iff rx_match_Cat_iff char_eq_def)

lemma lits_match_end:
  assumes "i \<le> length s"
  shows "rx_match True s (foldr Cat (map lit x @ [Eol]) Emp) i j \<longleftrightarrow>
           j = length s \<and> pattern_matches x (drop i s)"
proof -
  have "rx_match True s (foldr Cat (map lit x @ [Eol]) Emp) i j \<longleftrightarrow>
          i + length x = length s \<and> j = length s
          \<and> pattern_matches x (take (length x) (drop i s))"
    unfolding rx_match_foldr_append lits_match_iff[OF assms]
    by (auto simp add: rx_match_Cat_iff)
  moreover have "i + length x = length s \<Longrightarrow> take (length x) (drop i s) = drop i s"
    by simp
  moreover have "pattern_matches x (drop i s) \<Longrightarrow> i + length x = length s"
    using pattern_matches_length[of x "drop i s"] assms by simp
  ultimately show ?thesis by metis
qed

lemma pattern_matches_Cons_drop:
  "c \<noteq> CHR ''.'' \<Longrightarrow>
   pattern_matches (c # q) (drop n s) \<longleftrightarrow>
     n < length s \<and> upcase (s ! n) = upcase c \<and> pattern_matches q (drop (Suc n) s)"
proof (cases "n < length s")
  case True
  assume "c \<noteq> CHR ''.''"
  then show ?thesis using True Cons_nth_drop_Suc[OF True, symmetric] by simp
next
  case False
  then show ?thesis by simp
qed

lemma optional_char_match:
  assumes "c \<noteq> CHR ''.''"
  shows "rx_match True s
           (foldr Cat ([Bol] @ (map lit p @ ([Alt (Cat (Chr c) Emp) Emp] @ (map lit q @ [Eol])))) Emp) i j
         \<longleftrightarrow> i = 0 \<and> j = length s
              \<and> (pattern_matches (p @ q) s \<or> pattern_matches (p @ c # q) s)"
  (is "?L \<longleftrightarrow> ?R")
proof -
  let ?opt = "Alt (Cat (Chr c) Emp) Emp"
  let ?tail = "foldr Cat (map lit q @ [Eol]) Emp"
  have split: "?L \<longleftrightarrow> (\<exists>k1 k2 k3. rx_match True s (foldr Cat [Bol] Emp) i k1
                    \<and> rx_match True s (foldr Cat (map lit p) Emp) k1 k2
                    \<and> rx_match True s (foldr Cat [?opt] Emp) k2 k3
                    \<and> rx_match True s ?tail k3 j)"
    unfolding rx_match_foldr_append[of _ _ "[Bol]"]
      rx_match_foldr_append[of _ _ "map lit p"]
      rx_match_foldr_append[of _ _ "[?opt]"]
    by blast
  have A: "\<And>k1. rx_match True s (foldr Cat [Bol] Emp) i k1 \<longleftrightarrow> i = 0 \<and> k1 = 0"
    by (auto simp add: rx_match_Cat_iff)
  have B: "\<And>k2. rx_match True s (foldr Cat (map lit p) Emp) 0 k2 \<longleftrightarrow>
             k2 = length p \<and> length p \<le> length s \<and> pattern_matches p (take (length p) s)"
    using lits_match_iff[of 0 s p] by auto
  have C: "\<And>k2 k3. rx_match True s (foldr Cat [?opt] Emp) k2 k3 \<longleftrightarrow>
             k3 = k2 \<or> (k2 < length s \<and> k3 = Suc k2 \<and> upcase (s ! k2) = upcase c)"
    by (auto simp add: rx_match_Cat_iff rx_match_Alt_iff char_eq_def)
  have D: "\<And>k3. k3 \<le> length s \<Longrightarrow> rx_match True s ?tail k3 j \<longleftrightarrow>
             j = length s \<and> pattern_matches q (drop k3 s)"
    by (rule lits_match_end)
  have P1: "pattern_matches (p @ q) s \<longleftrightarrow>
              pattern_matches p (take (length p) s) \<and> pattern_matches q (drop (length p) s)"
    by (rule pattern_matches_append)
  have P2: "pattern_matches (p @ c # q) s \<longleftrightarrow>
              pattern_matches p (take (length p) s) \<and> length p < length s
              \<and> upcase (s ! length p) = upcase c \<and> pattern_matches q (drop (Suc (length p)) s)"
    unfolding pattern_matches_append[of p "c # q" s] pattern_matches_Cons_drop[OF assms] by blast
  have len: "pattern_matches p (take (length p) s) \<Longrightarrow> length p \<le> length s"
    using pattern_matches_length[of p "take (length p) s"] by simp
  show ?thesis
  proof
    assume ?L
    then obtain k1 k2 k3 where
        a: "rx_match True s (foldr Cat [Bol] Emp) i k1"
        and b: "rx_match True s (foldr Cat (map lit p) Emp) k1 k2"
        and c: "rx_match True s (foldr Cat [?opt] Emp) k2 k3"
        and d: "rx_match True s ?tail k3 j"
      unfolding split by blast
    from a have i: "i = 0" "k1 = 0" unfolding A by simp_all
    from b have k2: "k2 = length p" "length p \<le> length s" "pattern_matches p (take (length p) s)"
      unfolding i B by simp_all
    from c have "k3 = length p \<or> (length p < length s \<and> k3 = Suc (length p)
                   \<and> upcase (s ! length p) = upcase c)"
      unfolding C k2 by simp
    then show ?R
    proof
      assume e: "k3 = length p"
      with d k2 have "j = length s \<and> pattern_matches q (drop (length p) s)"
        using D[of "length p"] by simp
      with k2 i show ?R unfolding P1 by simp
    next
      assume e: "length p < length s \<and> k3 = Suc (length p) \<and> upcase (s ! length p) = upcase c"
      with d have "j = length s \<and> pattern_matches q (drop (Suc (length p)) s)"
        using D[of "Suc (length p)"] by simp
      with k2 i e show ?R unfolding P2 by simp
    qed
  next
    assume r: ?R
    then have i: "i = 0" "j = length s" by simp_all
    from r have "pattern_matches (p @ q) s \<or> pattern_matches (p @ c # q) s" by simp
    then show ?L
    proof
      assume "pattern_matches (p @ q) s"
      then have m: "pattern_matches p (take (length p) s)" "pattern_matches q (drop (length p) s)"
        unfolding P1 by simp_all
      have l: "length p \<le> length s" using m(1) by (rule len)
      have "rx_match True s (foldr Cat [Bol] Emp) i 0" unfolding A using i by simp
      moreover have "rx_match True s (foldr Cat (map lit p) Emp) 0 (length p)"
        unfolding B using m l by simp
      moreover have "rx_match True s (foldr Cat [?opt] Emp) (length p) (length p)"
        unfolding C by simp
      moreover have "rx_match True s ?tail (length p) j"
        using D[OF l] m i by simp
      ultimately show ?L unfolding split by blast
    next
      assume "pattern_matches (p @ c # q) s"
      then have m: "pattern_matches p (take (length p) s)" "length p < length s"
          "upcase (s ! length p) = upcase c" "pattern_matches q (drop (Suc (length p)) s)"
        unfolding P2 by simp_all
      have l: "Suc (length p) \<le> length s" using m(2) by simp
      have "rx_match True s (foldr Cat [Bol] Emp) i 0" unfolding A using i by simp
      moreover have "rx_match True s (foldr Cat (map lit p) Emp) 0 (length p)"
        unfolding B using m by simp
      moreover have "rx_match True s (foldr Cat [?opt] Emp) (length p) (Suc (length p))"
        unfolding C using m by simp
      moreover have "rx_match True s ?tail (Suc (length p)) j"
        using D[OF l] m i by simp
      ultimately show ?L unfolding split by blast
    qed
  qed
qed

lemma single_origin_regex:
  "seq_of ((Eol, Assertion) # lits x0 @ origin_prefix) =
     foldr Cat ([Bol] @ (map lit ''http'' @ ([Alt (Cat (Chr CHR ''s'') Emp) Emp]
                  @ (map lit (''://'' @ x0) @ [Eol])))) Emp"
proof -
  have "rev (map fst (lits x0 @ origin_prefix)) = rev (map fst origin_prefix) @ map lit x0"
    by (simp add: lits_def rev_map comp_def)
  then show ?thesis
    unfolding seq_of_Eol prefix_terms by simp
qed

lemma single_origin_test:
  assumes "list_all literal_char x0" and "compileOriginRegExp h [x0] = Inr re"
  shows "RegExp_test h re s \<longleftrightarrow>
           pattern_matches (''http://'' @ x0) s \<or> pattern_matches (''https://'' @ x0) s"
proof -
  have re: "re = Compiled (True, close_frame ([], (Eol, Assertion) # lits x0 @ origin_prefix))"
    using compile_literal_origins[of "[x0]" h] assms by simp
  have e1: "''http://'' @ x0 = ''http'' @ (''://'' @ x0)" by simp
  have e2: "''https://'' @ x0 = ''http'' @ CHR ''s'' # (''://'' @ x0)" by simp
  have c: "CHR ''s'' \<noteq> CHR ''.''" by simp
  show ?thesis
    unfolding re RegExp_test_Compiled test_closed_frame single_origin_regex e1 e2
    using optional_char_match[OF c, of s "''http''" "''://'' @ x0"]
    by auto
qed

lemma wildcard_not_literal: "\<not> list_all literal_char ALLOW_WILDCARD"
  by (simp add: ALLOW_WILDCARD_def literal_char_def)

lemma compile_fails_not_literal:
  assumes "compileOriginRegExp h os = Inl e"
  shows "\<not> (\<forall>x\<in>set os. list_all literal_char x)"
proof
  assume "\<forall>x\<in>set os. list_all literal_char x"
  from compile_literal_origins[OF this, of h] assms show False by simp
qed

lemma remove_keeps_matcher:
  assumes "(\<forall>x\<in>set (allowedOrigins s). list_all literal_char x) \<longrightarrow>
             compileOriginRegExp h (allowedOrigins s) = Inr (postMessageAllowedOriginRegex s)"
    and "s' = fst (removePostMessageOrigin h origin s)"
    and "\<forall>x\<in>set (allowedOrigins s'). list_all literal_char x"
  shows "compileOriginRegExp h (allowedOrigins s') = Inr (postMessageAllowedOriginRegex s')"
proof (cases "indexOf (allowedOrigins s) origin")
  case None
  then have "s' = s" using assms(2) by (simp add: removePostMessageOrigin_def)
  then show ?thesis using assms(1,3) by simp
next
  case (Some index)
  let ?l = "splice1 (allowedOrigins s) index"
  show ?thesis
  proof (cases "compileOriginRegExp h ?l")
    case (Inl e)
    then have "allowedOrigins s' = ?l"
      using assms(2) Some by (simp add: removePostMessageOrigin_def Let_def)
    with compile_fails_not_literal[OF Inl] assms(3) show ?thesis by simp
  next
    case (Inr re)
    then have "allowedOrigins s' = ?l" "postMessageAllowedOriginRegex s' = re"
      using assms(2) Some by (simp_all add: removePostMessageOrigin_def Let_def)
    with Inr show ?thesis by simp
  qed
qed

lemma add_keeps_matcher:
  assumes "(\<forall>x\<in>set (allowedOrigins s). list_all literal_char x) \<longrightarrow>
             compileOriginRegExp h (allowedOrigins s) = Inr (postMessageAllowedOriginRegex s)"
    and "s' = fst (addPostMessageOrigin h origin s)"
    and "\<forall>x\<in>set (allowedOrigins s'). list_all literal_char x"
  shows "compileOriginRegExp h (allowedOrigins s') = Inr (postMessageAllowedOriginRegex s')"
proof (cases "isWildcard origin")
  case True
  then have "allowedOrigins s' = [ALLOW_WILDCARD]"
    using assms(2) by (simp add: addPostMessageOrigin_def)
  with assms(3) wildcard_not_literal show ?thesis by simp
next
  case False
  show ?thesis
  proof (cases "indexOf (allowedOrigins s) origin = None")
    case present: False
    have "s' = s"
      unfolding assms(2) addPostMessageOrigin_def if_not_P[OF False] if_not_P[OF present] by simp
    then show ?thesis using assms(1,3) by simp
  next
    case True
    obtain s1 r where rm: "removePostMessageOrigin h ALLOW_WILDCARD s = (s1, r)"
      by (cases "removePostMessageOrigin h ALLOW_WILDCARD s")
    then have s1: "s1 = fst (removePostMessageOrigin h ALLOW_WILDCARD s)" by simp
    show ?thesis
    proof (cases r)
      case (Some e)
      then have "s' = s1"
        using assms(2) False True rm by (simp add: addPostMessageOrigin_def)
      then show ?thesis using remove_keeps_matcher[OF assms(1) s1] assms(3) by simp
    next
      case None
      let ?l = "allowedOrigins s1 @ [origin]"
      show ?thesis
      proof (cases "compileOriginRegExp h ?l")
        case (Inl e)
        then have "allowedOrigins s' = ?l"
          using assms(2) False True rm None by (simp add: addPostMessageOrigin_def Let_def)
        with compile_fails_not_literal[OF Inl] assms(3) show ?thesis by simp
      next
        case (Inr re)
        then have "allowedOrigins s' = ?l" "postMessageAllowedOriginRegex s' = re"
          using assms(2) False True rm None by (simp_all add: addPostMessageOrigin_def Let_def)
        with Inr show ?thesis by simp
      qed
    qed
  qed
qed

lemma reachable_matcher:
  assumes "reachable_origins h s"
  shows "(\<forall>x\<in>set (allowedOrigins s). list_all literal_char x) \<longrightarrow>
           compileOriginRegExp h (allowedOrigins s) = Inr (postMessageAllowedOriginRegex s)"
  using assms
proof (induction rule: reachable_origins.induct)
  case start
  have "\<not> (\<forall>x\<in>set (allowedOrigins (init h)). list_all literal_char x)"
    using wildcard_not_literal by (simp add: init_def)
  then show ?case by blast
next
  case (added s origin)
  show ?case by (intro impI add_keeps_matcher[OF added.IH refl])
next
  case (removed s origin)
  show ?case by (intro impI remove_keeps_matcher[OF removed.IH refl])
qed

text \<open>
  C4, as stated, fails. After \<open>addPostMessageOrigin("example.com")\<close> the check rejects
  the origin string \<open>example.com\<close>, which was added and is still in the list: the
  matcher asks for a scheme before it. With \<open>a.com\<close> and \<open>b.com\<close> added, the
  check accepts \<open>ftp://evilb.com\<close> and \<open>http://a.com.evil.example\<close>, which were never
  added: the bar between the origins is at the top level of the pattern, so the anchors
  and the scheme bind the first and last alternatives only. And an origin is read as a
  pattern: after \<open>addPostMessageOrigin("a+b.com")\<close> the check rejects
  \<open>http://a+b.com\<close> and \<open>https://a+b.com\<close>, and accepts \<open>http://aab.com\<close>.
\<close>

theorem origin_check_counterexample:
  "(let s1 = fst (addPostMessageOrigin page ''example.com'' (init page));
        s2 = fst (addPostMessageOrigin page ''b.com''
                    (fst (addPostMessageOrigin page ''a.com'' (init page))))
    in (allowedOrigins s1, origin_allowed page s1 ''example.com'',
        allowedOrigins s2, origin_allowed page s2 ''ftp://evilb.com'',
        origin_allowed page s2 ''http://a.com.evil.example''))
   = ([''example.com''], False, [''a.com'', ''b.com''], True, True)
   \<and> (let r3 = addPostMessageOrigin page ''a+b.com'' (init page)
       in (snd r3, allowedOrigins (fst r3), origin_allowed page (fst r3) ''http://a+b.com'',
           origin_allowed page (fst r3) ''https://a+b.com'',
           origin_allowed page (fst r3) ''http://aab.com''))
      = (None, [''a+b.com''], False, False, True)"
  by code_simp

text \<open>
  C4, amended. Take any state that calls of \<open>addPostMessageOrigin\<close> and
  \<open>removePostMessageOrigin\<close> lead to from the initial one, and let its trusted origins
  contain no pattern character other than the dot. Then for every origin \<open>x\<close> in the
  list the check accepts \<open>http://x\<close> and \<open>https://x\<close>. And when \<open>x\<close> is the only
  entry, the check accepts an origin string exactly when it is the document's own origin,
  the string \<open>null\<close>, or \<open>http://\<close> or \<open>https://\<close> followed by \<open>x\<close>, compared
  without regard to letter case and with each dot of \<open>x\<close> standing for any character but
  a line terminator.
\<close>

theorem origin_check_literal:
  assumes "reachable_origins h s"
    and "\<forall>x\<in>set (allowedOrigins s). list_all literal_char x"
  shows "(x0 \<in> set (allowedOrigins s) \<longrightarrow>
            origin_allowed h s (''http://'' @ x0) \<and> origin_allowed h s (''https://'' @ x0))
       \<and> (allowedOrigins s = [x0] \<longrightarrow>
            (origin_allowed h s e_origin \<longleftrightarrow>
               e_origin = location_origin h \<or> e_origin = ''null''
               \<or> pattern_matches (''http://'' @ x0) e_origin
               \<or> pattern_matches (''https://'' @ x0) e_origin))"
proof -
  note sync = reachable_matcher[OF assms(1), THEN mp, OF assms(2)]
  have a: "origin_allowed h s (''http://'' @ x0) \<and> origin_allowed h s (''https://'' @ x0)"
    if m: "x0 \<in> set (allowedOrigins s)"
  proof -
    note a = literal_origins_accept[OF assms(2) m sync]
    show ?thesis unfolding origin_allowed_def using a by blast
  qed
  have b: "origin_allowed h s e_origin \<longleftrightarrow>
                 e_origin = location_origin h \<or> e_origin = ''null''
                 \<or> pattern_matches (''http://'' @ x0) e_origin
                 \<or> pattern_matches (''https://'' @ x0) e_origin"
    if e: "allowedOrigins s = [x0]"
  proof -
    have l: "list_all literal_char x0" using assms(2) e by simp
    have c: "compileOriginRegExp h [x0] = Inr (postMessageAllowedOriginRegex s)"
      using sync e by simp
    show ?thesis unfolding origin_allowed_def single_origin_test[OF l c] by blast
  qed
  from a b show ?thesis by blast
qed

theorem origin_check_literal_witness:
  "reachable_origins page (fst (addPostMessageOrigin page ''example.com'' (init page)))
   \<and> list_all (list_all literal_char)
        (allowedOrigins (fst (addPostMessageOrigin page ''example.com'' (init page))))
   \<and> allowedOrigins (fst (addPostMessageOrigin page ''example.com'' (init page))) = [''example.com'']
   \<and> origin_allowed page (fst (addPostMessageOrigin page ''example.com'' (init page)))
        (''http://'' @ ''example.com'')
   \<and> origin_allowed page (fst (addPostMessageOrigin page ''example.com'' (init page)))
        (''https://'' @ ''example.com'')
   \<and> origin_allowed page (fst (addPostMessageOrigin page ''example.com'' (init page)))
        ''HTTPS://EXAMPLE.COM''
   \<and> \<not> origin_allowed page (fst (addPostMessageOrigin page ''example.com'' (init page)))
        ''https://other.example''"
proof -
  let ?s = "fst (addPostMessageOrigin page ''example.com'' (init page))"
  have r: "reachable_origins page ?s"
    by (rule reachable_origins.added[OF reachable_origins.start])
  have h0: "list_all (list_all literal_char) (allowedOrigins ?s)" by code_simp
  then have h1: "\<forall>x\<in>set (allowedOrigins ?s). list_all literal_char x"
    unfolding list_all_iff[of "list_all literal_char"] .
  have h3: "allowedOrigins ?s = [''example.com'']" by code_simp
  have h4: "''example.com'' \<in> set (allowedOrigins ?s)" unfolding h3 by simp
  have n: "\<not> (''https://other.example'' = location_origin page \<or> ''https://other.example'' = ''null''
         \<or> pattern_matches (''http://'' @ ''example.com'') ''https://other.example''
         \<or> pattern_matches (''https://'' @ ''example.com'') ''https://other.example'')"
    by code_simp
  have p: "''HTTPS://EXAMPLE.COM'' = location_origin page \<or> ''HTTPS://EXAMPLE.COM'' = ''null''
         \<or> pattern_matches (''http://'' @ ''example.com'') ''HTTPS://EXAMPLE.COM''
         \<or> pattern_matches (''https://'' @ ''example.com'') ''HTTPS://EXAMPLE.COM''"
    by code_simp
  note t = origin_check_literal[OF r h1, where ?x0.0 = "''example.com''"]
  note a = t[where e_origin = "[]", THEN conjunct1, rule_format, OF h4]
  note b = t[where e_origin = "''https://other.example''", THEN conjunct2, rule_format, OF h3]
  note b' = t[where e_origin = "''HTTPS://EXAMPLE.COM''", THEN conjunct2, rule_format, OF h3]
  have c: "\<not> origin_allowed page ?s ''https://other.example''"
    unfolding b by (rule n)
  have d: "origin_allowed page ?s ''HTTPS://EXAMPLE.COM''"
    unfolding b' by (rule p)
  show ?thesis by (intro conjI) (rule r h0 h3 a[THEN conjunct1] a[THEN conjunct2] d c)+
qed

end
